theory Spec2Isabelle
  imports Main "HOL-Library.AList"
begin

section \<open>The LDA preprocessing script (preprocessing/lda.py)\<close>

text \<open>
  The script is Python 2. A byte string (\<open>str\<close>, what \<open>argparse\<close> hands over) is a
  \<^typ>\<open>string\<close>; a \<open>unicode\<close> string is the list of its code points. A Python \<open>dict\<close> is
  an association list with distinct keys (\<^const>\<open>map_of\<close> looks a key up,
  \<^const>\<open>AList.update\<close> is \<open>d[k] = v\<close>); the order of the list stands for the
  iteration order of the \<open>dict\<close>, which Python leaves open.
\<close>

type_synonym unicode = "nat list"

subsection \<open>Built-in string operations\<close>

definition is_cont :: "nat \<Rightarrow> bool" where
  "is_cont b = (128 \<le> b \<and> b \<le> 191)"

text \<open>
  \<open>str.decode("utf-8")\<close>, strict: \<open>None\<close> is the \<open>UnicodeDecodeError\<close>. Overlong forms
  and values above U+10FFFF are refused.
\<close>

fun utf8_decode :: "nat list \<Rightarrow> unicode option" where
  "utf8_decode [] = Some []"
| "utf8_decode (b0 # bs) =
    (if b0 < 128 then map_option ((#) b0) (utf8_decode bs)
     else if 194 \<le> b0 \<and> b0 \<le> 223 then
       (case bs of
          b1 # bs1 \<Rightarrow>
            if is_cont b1
            then map_option ((#) ((b0 - 192) * 64 + (b1 - 128))) (utf8_decode bs1)
            else None
        | _ \<Rightarrow> None)
     else if 224 \<le> b0 \<and> b0 \<le> 239 then
       (case bs of
          b1 # b2 # bs2 \<Rightarrow>
            if is_cont b1 \<and> is_cont b2 \<and> (b0 = 224 \<longrightarrow> 160 \<le> b1)
            then map_option ((#) ((b0 - 224) * 4096 + (b1 - 128) * 64 + (b2 - 128)))
                   (utf8_decode bs2)
            else None
        | _ \<Rightarrow> None)
     else if 240 \<le> b0 \<and> b0 \<le> 244 then
       (case bs of
          b1 # b2 # b3 # bs3 \<Rightarrow>
            if is_cont b1 \<and> is_cont b2 \<and> is_cont b3
               \<and> (b0 = 240 \<longrightarrow> 144 \<le> b1) \<and> (b0 = 244 \<longrightarrow> b1 \<le> 143)
            then map_option
                   ((#) ((b0 - 240) * 262144 + (b1 - 128) * 4096 + (b2 - 128) * 64 + (b3 - 128)))
                   (utf8_decode bs3)
            else None
        | _ \<Rightarrow> None)
     else None)"

definition decode :: "string \<Rightarrow> unicode option" where
  "decode s = utf8_decode (map of_char s)"

text \<open>
  \<open>unicode.lower()\<close> sends every code point through the simple lower-case mapping of
  the interpreter's Unicode database. That table is not part of the script: it is the
  parameter \<open>to_lower\<close> of every function that lower-cases.
\<close>

definition lower :: "(nat \<Rightarrow> nat) \<Rightarrow> unicode \<Rightarrow> unicode" where
  "lower to_lower s = map to_lower s"

text \<open>The code points that \<open>unicode.strip()\<close> removes (\<open>unicode.isspace\<close>).\<close>

definition is_space :: "nat \<Rightarrow> bool" where
  "is_space c = ((9 \<le> c \<and> c \<le> 13) \<or> (28 \<le> c \<and> c \<le> 32) \<or> c = 133 \<or> c = 160
                 \<or> c = 5760 \<or> c = 6158 \<or> (8192 \<le> c \<and> c \<le> 8202) \<or> c = 8232 \<or> c = 8233
                 \<or> c = 8239 \<or> c = 8287 \<or> c = 12288)"

definition strip :: "unicode \<Rightarrow> unicode" where
  "strip s = rev (dropWhile is_space (rev (dropWhile is_space s)))"

text \<open>\<open>s.split(sep)\<close> with an explicit one-character separator: empty fields are kept.\<close>

fun split_on :: "nat \<Rightarrow> unicode \<Rightarrow> unicode list" where
  "split_on sep [] = [[]]"
| "split_on sep (c # cs) =
     (if c = sep then [] # split_on sep cs
      else (case split_on sep cs of
              t # ts \<Rightarrow> (c # t) # ts
            | [] \<Rightarrow> [[c]]))"

abbreviation SPACE :: nat where
  "SPACE \<equiv> 32"

subsection \<open>The vocabulary\<close>

text \<open>
  The vocabulary class and the LDA model belong to the topic-modelling library the script
  imports; neither is among the repository's sources. The spec describes the vocabulary
  as a bidirectional mapping between token strings and small integer ids with per-token
  document frequencies, built incrementally from tokenized documents, filtered and then
  compacted; a bag-of-words vector is a sparse mapping from vocabulary id to occurrence
  count. The definitions of this subsection follow that description. The library's
  pruning of vocabularies beyond two million entries is outside the model.
\<close>

type_synonym bow = "(nat \<times> nat) list"

record Dictionary =
  token2id :: "(unicode \<times> nat) list"
  dfs :: "(nat \<times> nat) list"
  num_docs :: nat

datatype filepath = ARTICLES_FILEPATH | LDA_DICTIONARY_FILEPATH | LDA_MODEL_FILEPATH

datatype error = Missing_sentence | UnicodeDecodeError | IOError filepath | KeyError

definition empty_dictionary :: Dictionary where
  \<comment> \<open>Modelled from the spec: the vocabulary constructor, an empty mapping.\<close>
  "empty_dictionary = \<lparr>token2id = [], dfs = [], num_docs = 0\<rparr>"

definition dict_of :: "('k \<times> 'v) list \<Rightarrow> ('k \<times> 'v) list" where
  \<comment> \<open>\<open>dict(pairs)\<close>: a later pair with the same key replaces the earlier value.\<close>
  "dict_of pairs = fold (\<lambda>(k, v) m. AList.update k v m) pairs []"

definition increment :: "'k \<Rightarrow> ('k \<times> nat) list \<Rightarrow> ('k \<times> nat) list" where
  \<comment> \<open>\<open>m[k] = m.get(k, 0) + 1\<close>\<close>
  "increment k m = AList.update k (case map_of m k of None \<Rightarrow> 1 | Some c \<Rightarrow> c + 1) m"

definition counter_of :: "unicode list \<Rightarrow> (unicode \<times> nat) list" where
  \<comment> \<open>Modelled from the spec: the occurrence count of every token of a document.\<close>
  "counter_of document = fold increment document []"

definition bow_of :: "(unicode \<times> nat) list \<Rightarrow> (unicode \<times> nat) list \<Rightarrow> bow" where
  \<comment> \<open>Modelled from the spec: the counts of the tokens the vocabulary knows, by id.\<close>
  "bow_of t2i counter =
     dict_of (List.map_filter (\<lambda>(w, freq). map_option (\<lambda>i. (i, freq)) (map_of t2i w)) counter)"

definition doc2bow :: "Dictionary \<Rightarrow> unicode list \<Rightarrow> bow" where
  \<comment> \<open>Modelled from the spec: the bag-of-words vector of a token list against a fixed
      vocabulary, in ascending id order; unknown tokens are dropped.\<close>
  "doc2bow d document = sort_key fst (bow_of (token2id d) (counter_of document))"

definition add_document :: "unicode list \<Rightarrow> Dictionary \<Rightarrow> Dictionary" where
  \<comment> \<open>Modelled from the spec: the incremental update with one tokenized document. A token
      not yet known gets the next free id; the document frequency of every token of the
      document goes up by one.\<close>
  "add_document document d =
     (let counter = counter_of document;
          missing = filter (\<lambda>w. map_of (token2id d) w = None) (map fst counter);
          t2i = fold (\<lambda>w m. AList.update w (length m) m) missing (token2id d);
          result = bow_of t2i counter
      in d\<lparr>token2id := t2i,
           dfs := fold increment (map fst result) (dfs d),
           num_docs := num_docs d + 1\<rparr>)"

definition add_documents :: "Dictionary \<Rightarrow> unicode list list \<Rightarrow> Dictionary" where
  \<comment> \<open>Modelled from the spec: the incremental update with a batch of documents.\<close>
  "add_documents d documents = fold add_document documents d"

definition filter_tokens :: "Dictionary \<Rightarrow> nat list \<Rightarrow> Dictionary" where
  \<comment> \<open>Modelled from the spec: the destructive filter; the tokens with the given ids go.\<close>
  "filter_tokens d bad_ids =
     d\<lparr>token2id := filter (\<lambda>(token, tokenid). tokenid \<notin> set bad_ids) (token2id d),
       dfs := filter (\<lambda>(tokenid, freq). tokenid \<notin> set bad_ids) (dfs d)\<rparr>"

definition compactify :: "Dictionary \<Rightarrow> error + Dictionary" where
  \<comment> \<open>Modelled from the spec: id compaction. The ids in use, in ascending order, are
      renumbered 0, 1, 2, ...; a document-frequency entry whose id no token has is a
      failed lookup.\<close>
  "compactify d =
     (let idmap = dict_of (zip (sort (map snd (token2id d))) [0..<length (token2id d)])
      in if list_all (\<lambda>(tokenid, freq). map_of idmap tokenid \<noteq> None) (dfs d)
         then Inr (d\<lparr>token2id := map (\<lambda>(token, tokenid). (token, the (map_of idmap tokenid)))
                                    (token2id d),
                     dfs := map (\<lambda>(tokenid, freq). (the (map_of idmap tokenid), freq)) (dfs d)\<rparr>)
         else Inl KeyError)"

subsection \<open>The LDA model, the files and the output\<close>

text \<open>
  The LDA model is a black box to the script. Its state here is what the script gives it:
  the arguments of the constructor and, in order, the batches of its update calls. What
  it answers to a query is a function of that state and of the query.
\<close>

record lda_model =
  num_topics :: nat
  id2word :: "(nat \<times> unicode) list"
  workers :: nat
  chunksize :: nat
  trained_on :: "bow list list"

definition LdaMulticore :: "nat \<Rightarrow> (nat \<times> unicode) list \<Rightarrow> nat \<Rightarrow> nat \<Rightarrow> lda_model" where
  \<comment> \<open>Modelled from the spec: the model initialised with topic count, id-to-word mapping,
      worker count and chunk size, and no corpus.\<close>
  "LdaMulticore topics i2w wrk chunk =
     \<lparr>num_topics = topics, id2word = i2w, workers = wrk, chunksize = chunk, trained_on = []\<rparr>"

definition update :: "lda_model \<Rightarrow> bow list \<Rightarrow> lda_model" where
  \<comment> \<open>Modelled from the spec: one incremental update call with a batch of vectors.\<close>
  "update m examples = m\<lparr>trained_on := trained_on m @ [examples]\<rparr>"

datatype message =
    Text string
  | Updating_at_article nat nat
  | Reached_max_articles nat
  | Loaded_unique_words nat
  | Filtered_unique_words nat
  | Updating_at_window nat nat
  | Reached_max_windows nat
  | Topic_line nat lda_model
  | Info_token_size nat nat
  | Topics_of lda_model bow

datatype event = Print message | Load filepath | Save filepath

text \<open>
  The world of one run: what the corpus loader and the windowing function yield (the
  content string of every article; the words of the tokens of every labeled window), the
  two persisted artifacts, and the trace of what was printed, read and written so far.
\<close>

record world =
  articles :: "unicode list"
  windows :: "unicode list list"
  dictionary_file :: "Dictionary option"
  model_file :: "lda_model option"
  trace :: "event list"

definition emit :: "event \<Rightarrow> world \<Rightarrow> world" where
  "emit e w = w\<lparr>trace := trace w @ [e]\<rparr>"

definition say :: "message \<Rightarrow> world \<Rightarrow> world" where
  "say msg w = emit (Print msg) w"

definition load_dictionary :: "world \<Rightarrow> world \<times> (error + Dictionary)" where
  "load_dictionary w =
     (emit (Load LDA_DICTIONARY_FILEPATH) w,
      case dictionary_file w of
        None \<Rightarrow> Inl (IOError LDA_DICTIONARY_FILEPATH)
      | Some d \<Rightarrow> Inr d)"

definition load_model :: "world \<Rightarrow> world \<times> (error + lda_model)" where
  "load_model w =
     (emit (Load LDA_MODEL_FILEPATH) w,
      case model_file w of
        None \<Rightarrow> Inl (IOError LDA_MODEL_FILEPATH)
      | Some m \<Rightarrow> Inr m)"

subsection \<open>Constants of the script\<close>

definition LDA_CHUNK_SIZE :: nat where "LDA_CHUNK_SIZE = 10000"
definition COUNT_EXAMPLES_FOR_DICTIONARY :: nat where "COUNT_EXAMPLES_FOR_DICTIONARY = 100000"
definition COUNT_EXAMPLES_FOR_LDA :: nat where "COUNT_EXAMPLES_FOR_LDA = 1000 * 1000"
definition LDA_COUNT_TOPICS :: nat where "LDA_COUNT_TOPICS = 100"
definition LDA_COUNT_WORKERS :: nat where "LDA_COUNT_WORKERS = 3"
definition IGNORE_WORDS_BELOW_COUNT :: nat where "IGNORE_WORDS_BELOW_COUNT = 4"

subsection \<open>generate\_dictionary\<close>

text \<open>
  The loop over \<open>enumerate(articles)\<close>, with the flush size \<open>n\<close>
  (\<open>update_every_n_articles\<close>) and the cap \<open>C\<close> as parameters; \<open>i\<close> is the index of
  the article at the head of the list.
\<close>

fun articles_loop ::
  "(nat \<Rightarrow> nat) \<Rightarrow> nat \<Rightarrow> nat \<Rightarrow> nat \<Rightarrow> unicode list \<Rightarrow> unicode list list \<Rightarrow> Dictionary \<Rightarrow> world
     \<Rightarrow> unicode list list \<times> Dictionary \<times> world" where
  "articles_loop to_lower n C i [] articles_str dictionary w = (articles_str, dictionary, w)"
| "articles_loop to_lower n C i (article # rest) articles_str dictionary w =
     (let articles_str = articles_str @ [split_on SPACE (lower to_lower article)];
          flush = (length articles_str \<ge> n);
          w = (if flush then say (Updating_at_article i C) w else w);
          dictionary = (if flush then add_documents dictionary articles_str else dictionary);
          articles_str = (if flush then [] else articles_str)
      in if i > C then (articles_str, dictionary, say (Reached_max_articles C) w)
         else articles_loop to_lower n C (i + 1) rest articles_str dictionary w)"

definition rare_ids :: "nat \<Rightarrow> Dictionary \<Rightarrow> nat list" where
  "rare_ids T dictionary =
     map fst (filter (\<lambda>(tokenid, docfreq). docfreq < T) (dfs dictionary))"

definition generate_dictionary_with ::
  "(nat \<Rightarrow> nat) \<Rightarrow> nat \<Rightarrow> nat \<Rightarrow> nat \<Rightarrow> world \<Rightarrow> world \<times> (error + unit)" where
  "generate_dictionary_with to_lower n C T w0 =
     (let w = say (Text ''------------------'') w0;
          w = say (Text ''Generating LDA Dictionary'') w;
          w = say (Text ''------------------'') w;
          w = emit (Load ARTICLES_FILEPATH) w;
          (articles_str, dictionary, w) =
            articles_loop to_lower n C 0 (articles w) [] empty_dictionary w;
          remaining = (length articles_str > 0);
          w = (if remaining then say (Text ''Updating with remaining articles...'') w else w);
          dictionary = (if remaining then add_documents dictionary articles_str else dictionary);
          w = say (Loaded_unique_words (length (token2id dictionary))) w;
          w = say (Text ''Filtering rare words...'') w;
          dictionary = filter_tokens dictionary (rare_ids T dictionary)
      in case compactify dictionary of
           Inl e \<Rightarrow> (w, Inl e)
         | Inr dictionary \<Rightarrow>
             (let w = say (Filtered_unique_words (length (token2id dictionary))) w;
                  w = say (Text ''Saving dictionary...'') w;
                  w = emit (Save LDA_DICTIONARY_FILEPATH) (w\<lparr>dictionary_file := Some dictionary\<rparr>)
              in (w, Inr ())))"

definition generate_dictionary :: "(nat \<Rightarrow> nat) \<Rightarrow> world \<Rightarrow> world \<times> (error + unit)" where
  "generate_dictionary to_lower =
     generate_dictionary_with to_lower 1000 COUNT_EXAMPLES_FOR_DICTIONARY IGNORE_WORDS_BELOW_COUNT"

subsection \<open>train\_lda\<close>

definition id2word_of :: "Dictionary \<Rightarrow> (nat \<times> unicode) list" where
  \<comment> \<open>\<open>for word in dictionary.token2id: id2word[dictionary.token2id[word]] = word\<close>\<close>
  "id2word_of dictionary =
     fold (\<lambda>word i2w. case map_of (token2id dictionary) word of
                         Some tokenid \<Rightarrow> AList.update tokenid word i2w
                       | None \<Rightarrow> i2w)
          (map fst (token2id dictionary)) []"

text \<open>
  The loop over \<open>enumerate(windows)\<close>, with the flush size \<open>F\<close>
  (\<open>update_every_n_windows\<close>) and the cap \<open>C\<close> as parameters. After the loop nothing is
  flushed: the source has that update commented out.
\<close>

fun windows_loop ::
  "(nat \<Rightarrow> nat) \<Rightarrow> nat \<Rightarrow> nat \<Rightarrow> Dictionary \<Rightarrow> nat \<Rightarrow> unicode list list \<Rightarrow> bow list \<Rightarrow> lda_model \<Rightarrow> world
     \<Rightarrow> bow list \<times> lda_model \<times> world" where
  "windows_loop to_lower F C dictionary i [] examples m w = (examples, m, w)"
| "windows_loop to_lower F C dictionary i (window # rest) examples m w =
     (let tokens_str = map (lower to_lower) window;
          bow = doc2bow dictionary tokens_str;
          examples = examples @ [bow];
          flush = (length examples \<ge> F);
          w = (if flush then say (Updating_at_window i C) w else w);
          m = (if flush then update m examples else m);
          examples = (if flush then [] else examples)
      in if i \<ge> C then (examples, m, say (Reached_max_windows C) w)
         else windows_loop to_lower F C dictionary (i + 1) rest examples m w)"

definition train_lda_with :: "(nat \<Rightarrow> nat) \<Rightarrow> nat \<Rightarrow> nat \<Rightarrow> world \<Rightarrow> world \<times> (error + unit)" where
  "train_lda_with to_lower F C w0 =
     (let w = say (Text ''------------------'') w0;
          w = say (Text ''Training LDA model'') w;
          w = say (Text ''------------------'') w;
          w = say (Text ''Loading dictionary...'') w
      in case load_dictionary w of
           (w, Inl e) \<Rightarrow> (w, Inl e)
         | (w, Inr dictionary) \<Rightarrow>
             (let w = say (Text ''Generating id2word...'') w;
                  i2w = id2word_of dictionary;
                  w = say (Text ''Initializing LDA...'') w;
                  m = LdaMulticore LDA_COUNT_TOPICS i2w LDA_COUNT_WORKERS LDA_CHUNK_SIZE;
                  w = say (Text ''Training...'') w;
                  w = emit (Load ARTICLES_FILEPATH) w;
                  (examples, m, w) = windows_loop to_lower F C dictionary 0 (windows w) [] m w;
                  w = say (Text ''Saving...'') w;
                  w = emit (Save LDA_MODEL_FILEPATH) (w\<lparr>model_file := Some m\<rparr>)
              in (w, Inr ())))"

definition train_lda :: "(nat \<Rightarrow> nat) \<Rightarrow> world \<Rightarrow> world \<times> (error + unit)" where
  "train_lda to_lower = train_lda_with to_lower 25000 COUNT_EXAMPLES_FOR_LDA"

subsection \<open>show\_topics and test\_lda\<close>

definition show_topics :: "world \<Rightarrow> world \<times> (error + unit)" where
  "show_topics w0 =
     (case load_dictionary w0 of
        (w, Inl e) \<Rightarrow> (w, Inl e)
      | (w, Inr dictionary) \<Rightarrow>
          (case load_model w of
             (w, Inl e) \<Rightarrow> (w, Inl e)
           | (w, Inr m) \<Rightarrow>
               (let w = say (Text ''List of topics:'') w
                in (fold (\<lambda>i. say (Topic_line i m)) [0..<LDA_COUNT_TOPICS] w, Inr ()))))"

text \<open>
  \<open>window_size\<close> is \<open>LDA_WINDOW_SIZE\<close>, a constant of the configuration module, which
  is not among the sources.
\<close>

definition test_lda :: "(nat \<Rightarrow> nat) \<Rightarrow> nat \<Rightarrow> string option \<Rightarrow> world \<Rightarrow> world \<times> (error + unit)" where
  "test_lda to_lower window_size sentence w0 =
     (case sentence of
        None \<Rightarrow> (w0, Inl Missing_sentence)
      | Some s \<Rightarrow>
          if length s < 1 then (w0, Inl Missing_sentence)
          else
            (case decode s of
               None \<Rightarrow> (w0, Inl UnicodeDecodeError)
             | Some u \<Rightarrow>
                 (let sentence = split_on SPACE (strip (lower to_lower u));
                      w = (if length sentence \<noteq> window_size
                           then say (Info_token_size (length sentence) window_size) w0
                           else w0)
                  in case load_dictionary w of
                       (w, Inl e) \<Rightarrow> (w, Inl e)
                     | (w, Inr dictionary) \<Rightarrow>
                         (case load_model w of
                            (w, Inl e) \<Rightarrow> (w, Inl e)
                          | (w, Inr m) \<Rightarrow>
                              (let bow = doc2bow dictionary sentence
                               in (say (Topics_of m bow) w, Inr ()))))))"

subsection \<open>main\<close>

record args =
  arg_dict :: bool
  arg_train :: bool
  arg_topics :: bool
  arg_test :: bool
  arg_sentence :: "string option"

definition and_then ::
  "world \<times> (error + unit) \<Rightarrow> (world \<Rightarrow> world \<times> (error + unit)) \<Rightarrow> world \<times> (error + unit)" where
  \<comment> \<open>The next statement runs unless an exception is on its way out.\<close>
  "and_then r f = (case r of (w, Inl e) \<Rightarrow> (w, Inl e) | (w, Inr u) \<Rightarrow> f w)"

definition when_set :: "bool \<Rightarrow> (world \<Rightarrow> world \<times> (error + unit)) \<Rightarrow> world \<Rightarrow> world \<times> (error + unit)" where
  "when_set flag f w = (if flag then f w else (w, Inr ()))"

definition main :: "(nat \<Rightarrow> nat) \<Rightarrow> nat \<Rightarrow> args \<Rightarrow> world \<Rightarrow> world \<times> (error + unit)" where
  "main to_lower window_size a w =
     and_then (and_then (and_then (and_then
       (when_set (arg_dict a) (generate_dictionary to_lower) w)
       (when_set (arg_train a) (train_lda to_lower)))
       (when_set (arg_topics a) show_topics))
       (when_set (arg_test a) (test_lda to_lower window_size (arg_sentence a))))
       (when_set (\<not> arg_dict a \<and> \<not> arg_train a \<and> \<not> arg_topics a \<and> \<not> arg_test a)
          (\<lambda>w. (say (Text ''No option chosen, choose --dict or --train or --topics or --test.'') w,
                Inr ())))"

subsection \<open>Example inputs\<close>

definition latin1_lower :: "nat \<Rightarrow> nat" where
  \<comment> \<open>The lower-case mapping on ASCII and Latin-1, the table of the example runs.\<close>
  "latin1_lower c =
     (if (65 \<le> c \<and> c \<le> 90) \<or> (192 \<le> c \<and> c \<le> 222 \<and> c \<noteq> 215) then c + 32 else c)"

definition unicode_of :: "string \<Rightarrow> unicode" where
  \<comment> \<open>An ASCII literal as a \<open>unicode\<close> string.\<close>
  "unicode_of s = map of_char s"

definition example_world :: world where
  "example_world =
     \<lparr>articles = map unicode_of [''a b c'', ''b c d'', ''c d e''],
      windows = map (map unicode_of) [[''a'', ''b''], [''b'', ''c''], [''c'', ''d'']],
      dictionary_file = None, model_file = None, trace = []\<rparr>"

definition no_flags :: args where
  "no_flags = \<lparr>arg_dict = False, arg_train = False, arg_topics = False, arg_test = False,
               arg_sentence = None\<rparr>"

definition example_dictionary :: Dictionary where
  "example_dictionary =
     \<lparr>token2id = [(unicode_of ''a'', 0), (unicode_of ''b'', 1), (unicode_of ''c'', 2),
                  (unicode_of ''d'', 3), (unicode_of ''e'', 4)],
      dfs = [(0, 1), (1, 2), (2, 3), (3, 2), (4, 1)], num_docs = 3\<rparr>"

definition vocabulary_world :: world where
  "vocabulary_world = example_world\<lparr>dictionary_file := Some example_dictionary\<rparr>"

subsection \<open>Auxiliary predicates\<close>

definition full_batches :: "nat \<Rightarrow> nat \<Rightarrow> lda_model \<Rightarrow> lda_model \<Rightarrow> bool" where
  \<comment> \<open>\<open>m'\<close> is \<open>m\<close> after \<open>k\<close> further update calls, each with exactly \<open>F\<close> vectors.\<close>
  "full_batches F k m m' \<longleftrightarrow>
     (\<exists>batches. trained_on m' = trained_on m @ batches \<and> length batches = k
               \<and> (\<forall>b\<in>set batches. length b = F)
               \<and> id2word m' = id2word m)"

definition doc_freq :: "unicode \<Rightarrow> unicode list list \<Rightarrow> nat" where
  \<comment> \<open>The document frequency of a token: in how many of the documents it occurs.\<close>
  "doc_freq t docs = length (filter (\<lambda>doc. t \<in> set doc) docs)"

definition tokenized_articles ::
  "(nat \<Rightarrow> nat) \<Rightarrow> nat \<Rightarrow> unicode list \<Rightarrow> unicode list list" where
  \<comment> \<open>The token lists of the articles up to and including index \<open>C + 1\<close>.\<close>
  "tokenized_articles to_lower C arts =
     map (\<lambda>a. split_on SPACE (lower to_lower a)) (take (Suc (Suc C)) arts)"

definition built_vocabulary :: "(nat \<Rightarrow> nat) \<Rightarrow> nat \<Rightarrow> unicode list \<Rightarrow> Dictionary" where
  \<comment> \<open>The vocabulary of those articles, added in one batch.\<close>
  "built_vocabulary to_lower C arts =
     add_documents empty_dictionary (tokenized_articles to_lower C arts)"

definition vocabulary_of :: "Dictionary \<Rightarrow> unicode list list \<Rightarrow> bool" where
  \<comment> \<open>\<open>d\<close> is a well-formed vocabulary of exactly the documents \<open>docs\<close>.\<close>
  "vocabulary_of d docs \<longleftrightarrow>
     distinct (map fst (token2id d)) \<and> distinct (map snd (token2id d))
     \<and> set (map snd (token2id d)) = {0..<length (token2id d)}
     \<and> distinct (map fst (dfs d))
     \<and> set (map fst (dfs d)) = set (map snd (token2id d))
     \<and> set (map fst (token2id d)) = \<Union> (set ` set docs)
     \<and> (\<forall>(t, i) \<in> set (token2id d). map_of (dfs d) i = Some (doc_freq t docs))
     \<and> num_docs d = length docs"

definition persisted_vocabulary :: "nat \<Rightarrow> unicode list list \<Rightarrow> Dictionary \<Rightarrow> bool" where
  \<comment> \<open>\<open>d\<close> holds exactly the tokens of \<open>docs\<close> with document frequency at least \<open>T\<close>,
      under the ids 0, 1, 2, ..., with their document frequencies.\<close>
  "persisted_vocabulary T docs d \<longleftrightarrow>
     distinct (map fst (token2id d)) \<and> distinct (map snd (token2id d))
     \<and> set (map snd (token2id d)) = {0..<length (token2id d)}
     \<and> set (map fst (token2id d)) = {t \<in> \<Union> (set ` set docs). T \<le> doc_freq t docs}
     \<and> (\<forall>(t, i) \<in> set (token2id d). map_of (dfs d) i = Some (doc_freq t docs))
     \<and> distinct (map fst (dfs d))
     \<and> set (map fst (dfs d)) = set (map snd (token2id d))
     \<and> num_docs d = length docs"

definition example_persisted :: Dictionary where
  "example_persisted =
     \<lparr>token2id = [(unicode_of ''b'', 0), (unicode_of ''c'', 1), (unicode_of ''d'', 2)],
      dfs = [(0, 2), (1, 3), (2, 2)], num_docs = 3\<rparr>"

definition example_model :: lda_model where
  "example_model =
     LdaMulticore LDA_COUNT_TOPICS (id2word_of example_dictionary) LDA_COUNT_WORKERS LDA_CHUNK_SIZE"

definition trained_world :: world where
  "trained_world = vocabulary_world\<lparr>model_file := Some example_model\<rparr>"

definition many_articles_world :: world where
  "many_articles_world = example_world\<lparr>articles := replicate 100002 (unicode_of ''a'')\<rparr>"

section \<open>Properties\<close>

subsection \<open>Sentence Tester\<close>

lemma test_lda_missing_iff:
  "snd (test_lda lc ws s w) = Inl Missing_sentence \<longleftrightarrow> s = None \<or> s = Some []"
  by (cases s)
     (auto simp: test_lda_def load_dictionary_def load_model_def Let_def
           split: option.splits sum.splits)

lemma test_lda_decode_iff:
  "snd (test_lda lc ws s w) = Inl UnicodeDecodeError
     \<longleftrightarrow> (\<exists>b. s = Some b \<and> b \<noteq> [] \<and> decode b = None)"
  by (cases s)
     (auto simp: test_lda_def load_dictionary_def load_model_def Let_def
           split: option.splits sum.splits)

lemma test_lda_early:
  "snd (test_lda lc ws s w) = Inl Missing_sentence
     \<or> snd (test_lda lc ws s w) = Inl UnicodeDecodeError
     \<Longrightarrow> fst (test_lda lc ws s w) = w"
  by (cases s)
     (auto simp: test_lda_def load_dictionary_def load_model_def Let_def
           split: option.splits sum.splits if_splits)

text \<open>
  C5, as stated, fails: a non-empty sentence that is not valid UTF-8 raises too (the
  decode error), so "raises if and only if absent or empty" does not hold.
\<close>

theorem test_lda_undecodable_raises:
  "snd (test_lda latin1_lower 11 (Some [CHR 0xFF]) example_world) = Inl UnicodeDecodeError
   \<and> length [CHR 0xFF] = 1"
  by (simp add: test_lda_def decode_def)

text \<open>
  C5, amended: the Sentence Tester raises its missing-or-empty error if and only if the
  sentence is absent or has length zero, and it raises the decode error if and only if
  the sentence is non-empty and not valid UTF-8. Either error leaves the world as it was:
  nothing has been printed, no artifact has been loaded, and no model has been queried.
\<close>

theorem test_lda_missing_sentence:
  "(snd (test_lda lc ws s w) = Inl Missing_sentence \<longleftrightarrow> s = None \<or> s = Some [])
   \<and> (snd (test_lda lc ws s w) = Inl UnicodeDecodeError
        \<longleftrightarrow> (\<exists>b. s = Some b \<and> b \<noteq> [] \<and> decode b = None))
   \<and> (snd (test_lda lc ws s w) = Inl Missing_sentence
        \<or> snd (test_lda lc ws s w) = Inl UnicodeDecodeError
      \<longrightarrow> fst (test_lda lc ws s w) = w)"
  using test_lda_missing_iff [of lc ws s w] test_lda_decode_iff [of lc ws s w]
    test_lda_early [of lc ws s w]
  by blast

theorem test_lda_missing_sentence_witness:
  "test_lda latin1_lower 11 (Some []) example_world = (example_world, Inl Missing_sentence)
   \<and> test_lda latin1_lower 11 None example_world = (example_world, Inl Missing_sentence)
   \<and> test_lda latin1_lower 11 (Some [CHR 0xFF]) example_world
       = (example_world, Inl UnicodeDecodeError)"
proof -
  have d: "decode [CHR 0xFF] = None" by (simp add: decode_def)
  have "snd (test_lda latin1_lower 11 (Some []) example_world) = Inl Missing_sentence
        \<and> fst (test_lda latin1_lower 11 (Some []) example_world) = example_world"
    using test_lda_missing_sentence [of latin1_lower 11 "Some []" example_world] by simp
  moreover have "snd (test_lda latin1_lower 11 None example_world) = Inl Missing_sentence
        \<and> fst (test_lda latin1_lower 11 None example_world) = example_world"
    using test_lda_missing_sentence [of latin1_lower 11 None example_world] by simp
  moreover have "snd (test_lda latin1_lower 11 (Some [CHR 0xFF]) example_world)
                   = Inl UnicodeDecodeError
        \<and> fst (test_lda latin1_lower 11 (Some [CHR 0xFF]) example_world) = example_world"
    using test_lda_missing_sentence [of latin1_lower 11 "Some [CHR 0xFF]" example_world] d
    by simp
  ultimately show ?thesis by (simp add: prod_eq_iff)
qed

lemma test_lda_run:
  assumes "s \<noteq> []" "decode s = Some u"
  shows "test_lda lc ws (Some s) w =
    (let tokens = split_on SPACE (strip (lower lc u));
         info = (if length tokens \<noteq> ws then [Print (Info_token_size (length tokens) ws)]
                 else [])
     in case dictionary_file w of
          None \<Rightarrow>
            (w\<lparr>trace := trace w @ info @ [Load LDA_DICTIONARY_FILEPATH]\<rparr>,
             Inl (IOError LDA_DICTIONARY_FILEPATH))
        | Some d \<Rightarrow>
            (case model_file w of
               None \<Rightarrow>
                 (w\<lparr>trace := trace w @ info
                        @ [Load LDA_DICTIONARY_FILEPATH, Load LDA_MODEL_FILEPATH]\<rparr>,
                  Inl (IOError LDA_MODEL_FILEPATH))
             | Some m \<Rightarrow>
                 (w\<lparr>trace := trace w @ info
                        @ [Load LDA_DICTIONARY_FILEPATH, Load LDA_MODEL_FILEPATH,
                           Print (Topics_of m (doc2bow d tokens))]\<rparr>,
                  Inr ())))"
  using assms
  by (simp add: test_lda_def load_dictionary_def load_model_def Let_def say_def emit_def
           split: option.splits)



subsection \<open>Dispatch\<close>

text \<open>
  C8: with none of the four operation flags set, the program prints the usage hint and
  does nothing else: the trace gains that one line, no artifact is read or written, and
  the run ends without an error.
\<close>

theorem main_no_flags:
  assumes "\<not> arg_dict a" "\<not> arg_train a" "\<not> arg_topics a" "\<not> arg_test a"
  shows "main lc ws a w =
    (w\<lparr>trace := trace w
          @ [Print (Text ''No option chosen, choose --dict or --train or --topics or --test.'')]\<rparr>,
     Inr ())"
  using assms by (simp add: main_def and_then_def when_set_def say_def emit_def)

theorem main_no_flags_witness:
  "main latin1_lower 11 no_flags example_world =
    (example_world
       \<lparr>trace := [Print (Text ''No option chosen, choose --dict or --train or --topics or --test.'')]\<rparr>,
     Inr ())"
  using main_no_flags [of no_flags latin1_lower 11 example_world]
  by (simp add: no_flags_def example_world_def)

subsection \<open>Model Trainer\<close>

lemma windows_loop_step:
  "windows_loop lc F C d i (window # rest) examples m w =
     (if F \<le> Suc (length examples)
      then (if C \<le> i
            then ([], update m (examples @ [doc2bow d (map (lower lc) window)]),
                  say (Reached_max_windows C) (say (Updating_at_window i C) w))
            else windows_loop lc F C d (Suc i) rest []
                   (update m (examples @ [doc2bow d (map (lower lc) window)]))
                   (say (Updating_at_window i C) w))
      else (if C \<le> i
            then (examples @ [doc2bow d (map (lower lc) window)], m, say (Reached_max_windows C) w)
            else windows_loop lc F C d (Suc i) rest (examples @ [doc2bow d (map (lower lc) window)]) m w))"
  by (simp add: Let_def)

lemma full_batches_refl: "full_batches F 0 m m"
  by (simp add: full_batches_def)

lemma full_batches_update:
  assumes "length ex = F" "full_batches F k (update m ex) m'"
  shows "full_batches F (Suc k) m m'"
proof -
  from assms(2) obtain batches where b: "trained_on m' = trained_on (update m ex) @ batches"
    "length batches = k" "\<forall>b\<in>set batches. length b = F" "id2word m' = id2word (update m ex)"
    unfolding full_batches_def by blast
  have "trained_on m' = trained_on m @ (ex # batches)" using b(1) by (simp add: update_def)
  moreover have "length (ex # batches) = Suc k" using b(2) by simp
  moreover have "\<forall>b\<in>set (ex # batches). length b = F" using b(3) assms(1) by simp
  moreover have "id2word m' = id2word m" using b(4) by (simp add: update_def)
  ultimately show ?thesis unfolding full_batches_def by blast
qed

lemma div_step: "0 < F \<Longrightarrow> (F + x) div F = Suc (x div F)" for F :: nat
  using div_add_self1 [of F x] by simp

lemma windows_loop_batches:
  assumes "0 < F" "length examples < F" "i \<le> C"
  shows "full_batches F ((length examples + min (length ws) (Suc C - i)) div F) m
           (fst (snd (windows_loop lc F C d i ws examples m w)))"
  using assms
proof (induction ws arbitrary: i examples m w)
  case Nil
  then show ?case by (simp add: full_batches_refl)
next
  case (Cons window rest)
  let ?ex = "examples @ [doc2bow d (map (lower lc) window)]"
  have m1: "min (length (window # rest)) (Suc C - i) = Suc (min (length rest) (C - i))"
    using Cons.prems(3) by (simp add: Suc_diff_le)
  show ?case
  proof (cases "F \<le> Suc (length examples)")
    case True
    with Cons.prems have len: "length ?ex = F" by simp
    then have F: "F = Suc (length examples)" by simp
    show ?thesis
    proof (cases "C \<le> i")
      case True
      with Cons.prems have "i = C" by simp
      have "full_batches F (Suc 0) m (update m ?ex)"
        using full_batches_update [OF len full_batches_refl] .
      moreover have "(length examples + min (length (window # rest)) (Suc C - i)) div F = Suc 0"
        using \<open>i = C\<close> F by simp
      ultimately show ?thesis
        using True \<open>F \<le> Suc (length examples)\<close> by (simp only: windows_loop_step if_True fst_conv snd_conv)
    next
      case False
      then have "Suc i \<le> C" by simp
      from Cons.IH [OF Cons.prems(1) _ this, of "[]" "update m ?ex" "say (Updating_at_window i C) w"]
      have "full_batches F ((min (length rest) (C - i)) div F) (update m ?ex)
              (fst (snd (windows_loop lc F C d (Suc i) rest [] (update m ?ex) (say (Updating_at_window i C) w))))"
        using Cons.prems(1) by simp
      then have "full_batches F (Suc ((min (length rest) (C - i)) div F)) m
              (fst (snd (windows_loop lc F C d (Suc i) rest [] (update m ?ex) (say (Updating_at_window i C) w))))"
        by (rule full_batches_update [OF len])
      moreover have "(length examples + min (length (window # rest)) (Suc C - i)) div F
                       = Suc ((min (length rest) (C - i)) div F)"
        unfolding m1 using div_step [OF Cons.prems(1), of "min (length rest) (C - i)"] F by simp
      ultimately show ?thesis
        using False \<open>F \<le> Suc (length examples)\<close> by (simp only: windows_loop_step if_True if_False)
    qed
  next
    case False
    then have len: "length ?ex < F" by simp
    show ?thesis
    proof (cases "C \<le> i")
      case True
      with Cons.prems have "i = C" by simp
      have "(length examples + min (length (window # rest)) (Suc C - i)) div F = 0"
        using \<open>i = C\<close> len by simp
      then show ?thesis
        using True False by (simp only: windows_loop_step if_True if_False fst_conv snd_conv full_batches_refl)
    next
      case c: False
      then have "Suc i \<le> C" by simp
      from Cons.IH [OF Cons.prems(1) len this, of m w]
      have "full_batches F ((length ?ex + min (length rest) (C - i)) div F) m
              (fst (snd (windows_loop lc F C d (Suc i) rest ?ex m w)))" by simp
      moreover have "length examples + min (length (window # rest)) (Suc C - i)
                       = length ?ex + min (length rest) (C - i)"
        unfolding m1 by simp
      ultimately show ?thesis
        using c False by (simp only: windows_loop_step if_True if_False)
    qed
  qed
qed


lemma train_lda_with_result:
  assumes "dictionary_file w = Some d"
  shows "\<exists>w1. snd (train_lda_with lc F C w) = Inr () \<and>
           model_file (fst (train_lda_with lc F C w)) =
             Some (fst (snd (windows_loop lc F C d 0 (windows w) []
                    (LdaMulticore LDA_COUNT_TOPICS (id2word_of d) LDA_COUNT_WORKERS LDA_CHUNK_SIZE) w1)))"
  using assms
  by (simp add: train_lda_with_def load_dictionary_def say_def emit_def Let_def case_prod_unfold)
     blast

lemma train_lda_with_batches:
  assumes "dictionary_file w = Some d" "0 < F"
  shows "\<exists>m. snd (train_lda_with lc F C w) = Inr ()
            \<and> model_file (fst (train_lda_with lc F C w)) = Some m
            \<and> length (trained_on m) = min (length (windows w)) (Suc C) div F
            \<and> (\<forall>b\<in>set (trained_on m). length b = F)
            \<and> id2word m = id2word_of d"
proof -
  let ?M = "LdaMulticore LDA_COUNT_TOPICS (id2word_of d) LDA_COUNT_WORKERS LDA_CHUNK_SIZE"
  from train_lda_with_result [OF assms(1), where lc = lc and F = F and C = C] obtain w1 where
    r: "snd (train_lda_with lc F C w) = Inr ()"
       "model_file (fst (train_lda_with lc F C w)) =
          Some (fst (snd (windows_loop lc F C d 0 (windows w) [] ?M w1)))"
    by blast
  let ?m = "fst (snd (windows_loop lc F C d 0 (windows w) [] ?M w1))"
  have "full_batches F ((length ([]::bow list) + min (length (windows w)) (Suc C - 0)) div F) ?M ?m"
    by (rule windows_loop_batches) (use assms(2) in simp_all)
  then obtain batches where b: "trained_on ?m = trained_on ?M @ batches"
    "length batches = min (length (windows w)) (Suc C) div F"
    "\<forall>b\<in>set batches. length b = F" "id2word ?m = id2word ?M"
    unfolding full_batches_def by auto
  have "trained_on ?M = []" "id2word ?M = id2word_of d" by (simp_all add: LdaMulticore_def)
  with b have "length (trained_on ?m) = min (length (windows w)) (Suc C) div F"
    "\<forall>b\<in>set (trained_on ?m). length b = F" "id2word ?m = id2word_of d" by simp_all
  with r show ?thesis by blast
qed

lemma vocabulary_world_simps:
  "dictionary_file vocabulary_world = Some example_dictionary"
  "length (windows vocabulary_world) = 3"
  by (simp_all add: vocabulary_world_def example_world_def)

text \<open>
  C1, as stated, fails: a stream of three windows gets no update call at all, while the
  claimed count, the ceiling of 3 / 25000, is one.
\<close>

theorem train_lda_short_stream_no_update:
  "map_option (length \<circ> trained_on) (model_file (fst (train_lda latin1_lower vocabulary_world))) = Some 0
   \<and> length (windows vocabulary_world) = 3
   \<and> (3 + 25000 - 1) div 25000 = (1::nat)"
proof -
  from train_lda_with_batches [OF vocabulary_world_simps(1), where lc = latin1_lower
      and F = 25000 and C = COUNT_EXAMPLES_FOR_LDA]
  obtain m where "model_file (fst (train_lda latin1_lower vocabulary_world)) = Some m"
    "length (trained_on m) = min (length (windows vocabulary_world)) (Suc COUNT_EXAMPLES_FOR_LDA) div 25000"
    unfolding train_lda_def by auto
  then show ?thesis by (simp add: vocabulary_world_simps(2))
qed

lemma cap_arith: "min W (Suc COUNT_EXAMPLES_FOR_LDA) div 25000 = min W 1000000 div (25000::nat)"
proof (cases "W \<le> 1000000")
  case True
  then show ?thesis by (simp add: COUNT_EXAMPLES_FOR_LDA_def min_def)
next
  case False
  then have "min W (Suc COUNT_EXAMPLES_FOR_LDA) = 1000001" "min W 1000000 = 1000000"
    by (simp_all add: COUNT_EXAMPLES_FOR_LDA_def min_def)
  then show ?thesis by simp
qed

text \<open>
  C1, amended: with the vocabulary in place, the Model Trainer issues exactly the number
  of full batches as update calls before it saves the model, that is \<open>W div F\<close> for a
  stream of \<open>W\<close> windows within the cap and a flush threshold \<open>F \<ge> 1\<close>, and, with the
  constants of the script, \<open>min W 1000000 div 25000\<close> for every stream. The remainder
  of the stream is never flushed.
\<close>

theorem train_lda_update_count:
  assumes "dictionary_file w = Some d"
  shows "(0 < F \<and> length (windows w) \<le> C \<longrightarrow>
            (\<exists>m. snd (train_lda_with lc F C w) = Inr ()
                \<and> model_file (fst (train_lda_with lc F C w)) = Some m
                \<and> length (trained_on m) = length (windows w) div F))
         \<and> (\<exists>m. snd (train_lda lc w) = Inr ()
                \<and> model_file (fst (train_lda lc w)) = Some m
                \<and> length (trained_on m) = min (length (windows w)) 1000000 div 25000)"
proof (intro conjI impI)
  assume a: "0 < F \<and> length (windows w) \<le> C"
  then have "min (length (windows w)) (Suc C) = length (windows w)" by simp
  with train_lda_with_batches [OF assms, where lc = lc and F = F and C = C] a
  show "\<exists>m. snd (train_lda_with lc F C w) = Inr ()
            \<and> model_file (fst (train_lda_with lc F C w)) = Some m
            \<and> length (trained_on m) = length (windows w) div F"
    by auto
next
  from train_lda_with_batches [OF assms, where lc = lc and F = 25000
      and C = COUNT_EXAMPLES_FOR_LDA]
  show "\<exists>m. snd (train_lda lc w) = Inr ()
            \<and> model_file (fst (train_lda lc w)) = Some m
            \<and> length (trained_on m) = min (length (windows w)) 1000000 div 25000"
    unfolding train_lda_def cap_arith by auto
qed

theorem train_lda_update_count_witness:
  "map_option (length \<circ> trained_on) (model_file (fst (train_lda_with latin1_lower 2 10 vocabulary_world))) = Some 1
   \<and> map_option (length \<circ> trained_on) (model_file (fst (train_lda latin1_lower vocabulary_world))) = Some 0"
  using train_lda_update_count [OF vocabulary_world_simps(1), where lc = latin1_lower
      and F = 2 and C = 10]
  by (auto simp: vocabulary_world_simps(2))

text \<open>
  C4: every update call the Model Trainer makes carries exactly the flush-threshold
  number of bag-of-words vectors (25000 in the script); the saved model has seen no
  smaller batch, whether the loop ended at the cap or with the stream.
\<close>

theorem train_lda_full_batches_only:
  assumes "dictionary_file w = Some d"
  shows "(0 < F \<longrightarrow>
            (\<exists>m. snd (train_lda_with lc F C w) = Inr ()
                \<and> model_file (fst (train_lda_with lc F C w)) = Some m
                \<and> (\<forall>b\<in>set (trained_on m). length b = F)))
         \<and> (\<exists>m. snd (train_lda lc w) = Inr ()
                \<and> model_file (fst (train_lda lc w)) = Some m
                \<and> (\<forall>b\<in>set (trained_on m). length b = 25000))"
proof (intro conjI impI)
  assume "0 < F"
  from train_lda_with_batches [OF assms this, where lc = lc and C = C]
  show "\<exists>m. snd (train_lda_with lc F C w) = Inr ()
            \<and> model_file (fst (train_lda_with lc F C w)) = Some m
            \<and> (\<forall>b\<in>set (trained_on m). length b = F)"
    by blast
next
  from train_lda_with_batches [OF assms, where lc = lc and F = 25000
      and C = COUNT_EXAMPLES_FOR_LDA]
  show "\<exists>m. snd (train_lda lc w) = Inr ()
            \<and> model_file (fst (train_lda lc w)) = Some m
            \<and> (\<forall>b\<in>set (trained_on m). length b = 25000)"
    unfolding train_lda_def by auto
qed

theorem train_lda_full_batches_only_witness:
  "map_option (map length \<circ> trained_on) (model_file (fst (train_lda_with latin1_lower 2 10 vocabulary_world)))
     = Some [2]"
proof -
  from train_lda_full_batches_only [OF vocabulary_world_simps(1), where lc = latin1_lower
      and F = 2 and C = 10]
  obtain m where m: "model_file (fst (train_lda_with latin1_lower 2 10 vocabulary_world)) = Some m"
    "\<forall>b\<in>set (trained_on m). length b = 2" by auto
  from train_lda_with_batches [OF vocabulary_world_simps(1), where lc = latin1_lower
      and F = 2 and C = 10]
  obtain m' where m': "model_file (fst (train_lda_with latin1_lower 2 10 vocabulary_world)) = Some m'"
    "length (trained_on m') = min (length (windows vocabulary_world)) (Suc 10) div 2" by auto
  from m(1) m' have "length (trained_on m) = 1" by (simp add: vocabulary_world_simps(2))
  then obtain b where "trained_on m = [b]" by (cases "trained_on m") auto
  with m show ?thesis by simp
qed

subsection \<open>Association lists as dictionaries\<close>


lemma update_fresh: "k \<notin> fst ` set al \<Longrightarrow> AList.update k v al = al @ [(k, v)]"
  by (induction al) auto

lemma fold_update_keys:
  "fst ` set (fold (\<lambda>(k, v) m. AList.update k v m) xs acc) = fst ` set xs \<union> fst ` set acc"
proof (induction xs arbitrary: acc)
  case Nil
  then show ?case by simp
next
  case (Cons x xs)
  obtain k v where x: "x = (k, v)" by (cases x)
  have "fst ` set (fold (\<lambda>(k, v) m. AList.update k v m) (x # xs) acc)
        = fst ` set xs \<union> fst ` set (AList.update k v acc)"
    using Cons.IH [of "AList.update k v acc"] by (simp add: x)
  also have "\<dots> = fst ` set xs \<union> ({k} \<union> fst ` set acc)"
    by (simp only: AList.dom_update)
  finally show ?case unfolding x by auto
qed

lemma fold_update_distinct:
  "distinct (map fst acc) \<Longrightarrow> distinct (map fst (fold (\<lambda>(k, v) m. AList.update k v m) xs acc))"
  by (induction xs arbitrary: acc) (auto simp: AList.distinct_update)

lemma dict_of_keys: "fst ` set (dict_of xs) = fst ` set xs"
  unfolding dict_of_def using fold_update_keys [of xs "[]"] by simp

lemma dict_of_distinct: "distinct (map fst (dict_of xs))"
  unfolding dict_of_def by (rule fold_update_distinct) simp

lemma fold_update_fresh:
  "distinct (map fst (acc @ xs)) \<Longrightarrow> fold (\<lambda>(k, v) m. AList.update k v m) xs acc = acc @ xs"
proof (induction xs arbitrary: acc)
  case Nil
  then show ?case by simp
next
  case (Cons x xs)
  obtain k v where x: "x = (k, v)" by (cases x)
  from Cons.prems have "k \<notin> fst ` set acc" unfolding x by auto
  then have u: "AList.update k v acc = acc @ [(k, v)]" by (rule update_fresh)
  from Cons.prems have "distinct (map fst ((acc @ [(k, v)]) @ xs))" unfolding x by simp
  from Cons.IH [OF this] show ?case unfolding x by (simp add: u)
qed

lemma dict_of_id: "distinct (map fst xs) \<Longrightarrow> dict_of xs = xs"
  unfolding dict_of_def using fold_update_fresh [of "[]" xs] by simp

lemma increment_keys: "fst ` set (increment k m) = insert k (fst ` set m)"
  by (simp add: increment_def AList.dom_update)

lemma increment_distinct: "distinct (map fst m) \<Longrightarrow> distinct (map fst (increment k m))"
  by (simp add: increment_def AList.distinct_update)

lemma map_of_increment:
  "map_of (increment k m) i =
     (if i = k then Some (case map_of m k of None \<Rightarrow> 1 | Some c \<Rightarrow> c + 1) else map_of m i)"
  by (simp add: increment_def AList.update_conv')

lemma fold_increment_keys: "fst ` set (fold increment ks m) = set ks \<union> fst ` set m"
  by (induction ks arbitrary: m) (auto simp: increment_keys)

lemma fold_increment_distinct:
  "distinct (map fst m) \<Longrightarrow> distinct (map fst (fold increment ks m))"
  by (induction ks arbitrary: m) (auto simp: increment_distinct)

lemma map_of_fold_increment:
  "distinct ks \<Longrightarrow>
   map_of (fold increment ks m) i =
     (if i \<in> set ks then Some (case map_of m i of None \<Rightarrow> 1 | Some c \<Rightarrow> c + 1) else map_of m i)"
proof (induction ks arbitrary: m)
  case Nil
  then show ?case by simp
next
  case (Cons k ks)
  then have "distinct ks" "k \<notin> set ks" by simp_all
  from Cons.IH [OF this(1), of "increment k m"] \<open>k \<notin> set ks\<close>
  show ?case by (auto simp: map_of_increment)
qed

lemma counter_of_keys: "fst ` set (counter_of doc) = set doc"
  unfolding counter_of_def using fold_increment_keys [of doc "[]"] by simp

lemma counter_of_distinct: "distinct (map fst (counter_of doc))"
  unfolding counter_of_def by (rule fold_increment_distinct) simp

lemma assign_ids:
  "distinct ws \<Longrightarrow> set ws \<inter> fst ` set t2i = {} \<Longrightarrow>
   fold (\<lambda>w m. AList.update w (length m) m) ws t2i
     = t2i @ zip ws [length t2i..<length t2i + length ws]"
proof (induction ws arbitrary: t2i)
  case Nil
  then show ?case by simp
next
  case (Cons w ws)
  from Cons.prems have fresh: "w \<notin> fst ` set t2i" by auto
  have u: "AList.update w (length t2i) t2i = t2i @ [(w, length t2i)]"
    using fresh by (rule update_fresh)
  from Cons.prems have "distinct ws" "set ws \<inter> fst ` set (t2i @ [(w, length t2i)]) = {}"
    by auto
  from Cons.IH [OF this]
  have "fold (\<lambda>w m. AList.update w (length m) m) ws (t2i @ [(w, length t2i)])
        = t2i @ (w, length t2i) # zip ws [Suc (length t2i)..<Suc (length t2i) + length ws]"
    by simp
  moreover have "[length t2i..<length t2i + Suc (length ws)]
                 = length t2i # [Suc (length t2i)..<length t2i + Suc (length ws)]"
    by (rule upt_conv_Cons) simp
  ultimately show ?case by (simp add: u)
qed

lemma doc_freq_snoc:
  "doc_freq t (docs @ [doc]) = doc_freq t docs + (if t \<in> set doc then 1 else 0)"
  by (simp add: doc_freq_def)

lemma doc_freq_unseen: "t \<notin> \<Union> (set ` set docs) \<Longrightarrow> doc_freq t docs = 0"
  by (auto simp: doc_freq_def)

lemma map_of_inj:
  assumes "distinct (map snd xs)" "map_of xs a = Some i" "map_of xs b = Some i"
  shows "a = b"
proof -
  from assms(2,3) have "(a, i) \<in> set xs" "(b, i) \<in> set xs" by (auto dest: map_of_SomeD)
  moreover from assms(1) have "inj_on snd (set xs)" by (simp add: distinct_map)
  ultimately have "(a, i) = (b, i)" using inj_onD [of snd "set xs" "(a, i)" "(b, i)"] by simp
  then show ?thesis by simp
qed

lemma bow_of_ids:
  "set (map fst (bow_of t2i (counter_of doc))) = {i. \<exists>w\<in>set doc. map_of t2i w = Some i}"
proof -
  let ?f = "\<lambda>(w, freq). map_option (\<lambda>i. (i, freq :: nat)) (map_of t2i w)"
  have "set (map fst (bow_of t2i (counter_of doc)))
        = fst ` set (List.map_filter ?f (counter_of doc))"
    unfolding bow_of_def by (simp add: dict_of_keys)
  also have "\<dots> = {i. \<exists>w\<in>fst ` set (counter_of doc). map_of t2i w = Some i}"
    by (force simp: List.map_filter_def)
  finally show ?thesis by (simp add: counter_of_keys)
qed

lemma bow_of_distinct: "distinct (map fst (bow_of t2i counter))"
  unfolding bow_of_def by (rule dict_of_distinct)

lemma add_document_unfold:
  "add_document doc d =
     (let missing = filter (\<lambda>w. map_of (token2id d) w = None) (map fst (counter_of doc));
          t2i = token2id d @ zip missing [length (token2id d)..<length (token2id d) + length missing]
      in d\<lparr>token2id := t2i,
           dfs := fold increment (map fst (bow_of t2i (counter_of doc))) (dfs d),
           num_docs := num_docs d + 1\<rparr>)"
proof -
  let ?missing = "filter (\<lambda>w. map_of (token2id d) w = None) (map fst (counter_of doc))"
  have "distinct ?missing" by (simp add: counter_of_distinct)
  moreover have "set ?missing \<inter> fst ` set (token2id d) = {}"
    by (auto simp: map_of_eq_None_iff)
  ultimately have "fold (\<lambda>w m. AList.update w (length m) m) ?missing (token2id d)
     = token2id d @ zip ?missing [length (token2id d)..<length (token2id d) + length ?missing]"
    by (rule assign_ids)
  then show ?thesis by (simp add: add_document_def Let_def)
qed

lemma add_document_invariant:
  assumes inv: "vocabulary_of d docs"
  shows "vocabulary_of (add_document doc d) (docs @ [doc])"
proof -
  define t2i where "t2i = token2id d"
  define n where "n = length t2i"
  define missing where "missing = filter (\<lambda>w. map_of t2i w = None) (map fst (counter_of doc))"
  define t2i' where "t2i' = t2i @ zip missing [n..<n + length missing]"
  define ids where "ids = map fst (bow_of t2i' (counter_of doc))"
  define dfs' where "dfs' = fold increment ids (dfs d)"
  have unf: "add_document doc d = d\<lparr>token2id := t2i', dfs := dfs', num_docs := num_docs d + 1\<rparr>"
    unfolding add_document_unfold Let_def dfs'_def ids_def t2i'_def missing_def n_def t2i_def ..
  from inv have d1: "distinct (map fst t2i)" and d2: "distinct (map snd t2i)"
    and r: "set (map snd t2i) = {0..<n}"
    and k1: "distinct (map fst (dfs d))" and k2: "set (map fst (dfs d)) = {0..<n}"
    and toks: "set (map fst t2i) = \<Union> (set ` set docs)"
    and cnt: "\<And>t i. (t, i) \<in> set t2i \<Longrightarrow> map_of (dfs d) i = Some (doc_freq t docs)"
    and nd: "num_docs d = length docs"
    unfolding vocabulary_of_def t2i_def n_def by auto
  have m_dist: "distinct missing" unfolding missing_def by (simp add: counter_of_distinct)
  have m_set: "set missing = set doc - set (map fst t2i)"
    unfolding missing_def using counter_of_keys [of doc] by (auto simp: map_of_eq_None_iff)
  have fst': "map fst t2i' = map fst t2i @ missing" unfolding t2i'_def by simp
  have snd': "map snd t2i' = map snd t2i @ [n..<n + length missing]" unfolding t2i'_def by simp
  have len': "length t2i' = n + length missing" unfolding t2i'_def n_def by simp
  have D1: "distinct (map fst t2i')" unfolding fst' using d1 m_dist m_set by auto
  have D2: "distinct (map snd t2i')" unfolding snd' using d2 r by auto
  have R: "set (map snd t2i') = {0..<length t2i'}" unfolding snd' len' using r by auto
  have T: "set (map fst t2i') = \<Union> (set ` set (docs @ [doc]))"
    unfolding fst' using toks m_set by auto
  have ids_dist: "distinct ids" unfolding ids_def by (rule bow_of_distinct)
  have ids_set: "set ids = {i. \<exists>w\<in>set doc. map_of t2i' w = Some i}"
    unfolding ids_def by (rule bow_of_ids)
  have lookup: "map_of t2i' t = Some i" if "(t, i) \<in> set t2i'" for t i
    using that D1 by simp
  have in_ids: "i \<in> set ids \<longleftrightarrow> t \<in> set doc" if ti: "(t, i) \<in> set t2i'" for t i
  proof
    assume "i \<in> set ids"
    then obtain w where w: "w \<in> set doc" "map_of t2i' w = Some i" unfolding ids_set by auto
    from map_of_inj [OF D2 w(2) lookup [OF ti]] w(1) show "t \<in> set doc" by simp
  next
    assume "t \<in> set doc"
    with lookup [OF ti] show "i \<in> set ids" unfolding ids_set by auto
  qed
  have ids_sub: "set ids \<subseteq> {0..<length t2i'}"
  proof
    fix i assume "i \<in> set ids"
    then obtain w where "map_of t2i' w = Some i" unfolding ids_set by auto
    then have "(w, i) \<in> set t2i'" by (rule map_of_SomeD)
    then have "i \<in> set (map snd t2i')" by force
    then show "i \<in> {0..<length t2i'}" unfolding R .
  qed
  have new_ids: "{n..<length t2i'} \<subseteq> set ids"
  proof
    fix i assume i: "i \<in> {n..<length t2i'}"
    then have "i \<in> set [n..<n + length missing]" unfolding len' by simp
    moreover have "set [n..<n + length missing]
                     = snd ` set (zip missing [n..<n + length missing])"
      using set_map [of snd "zip missing [n..<n + length missing]"] by simp
    ultimately have "i \<in> snd ` set (zip missing [n..<n + length missing])" by blast
    then obtain t where t: "(t, i) \<in> set (zip missing [n..<n + length missing])" by force
    then have "t \<in> set missing" by (rule set_zip_leftD)
    then have "t \<in> set doc" unfolding m_set by simp
    moreover from t have "(t, i) \<in> set t2i'" unfolding t2i'_def by simp
    ultimately show "i \<in> set ids" using in_ids by simp
  qed
  have K1: "distinct (map fst dfs')" unfolding dfs'_def using k1 by (rule fold_increment_distinct)
  have "set (map fst dfs') = set ids \<union> {0..<n}"
    unfolding dfs'_def using fold_increment_keys [of ids "dfs d"] k2 by simp
  also have "\<dots> = {0..<length t2i'}"
    using ids_sub new_ids len' by auto
  finally have K2: "set (map fst dfs') = set (map snd t2i')" unfolding R .
  have dfs_lookup: "map_of dfs' i =
      (if i \<in> set ids then Some (case map_of (dfs d) i of None \<Rightarrow> 1 | Some c \<Rightarrow> c + 1)
       else map_of (dfs d) i)" for i
    unfolding dfs'_def using ids_dist by (rule map_of_fold_increment)
  have C: "map_of dfs' i = Some (doc_freq t (docs @ [doc]))" if ti: "(t, i) \<in> set t2i'" for t i
  proof (cases "(t, i) \<in> set t2i")
    case True
    from cnt [OF True] show ?thesis
      unfolding dfs_lookup doc_freq_snoc in_ids [OF ti] by simp
  next
    case False
    with ti have z: "(t, i) \<in> set (zip missing [n..<n + length missing])"
      unfolding t2i'_def by simp
    then have "t \<in> set missing" by (rule set_zip_leftD)
    then have t: "t \<in> set doc" "t \<notin> \<Union> (set ` set docs)" unfolding m_set toks by simp_all
    from z have "i \<in> set [n..<n + length missing]" by (rule set_zip_rightD)
    then have "i \<notin> set (map fst (dfs d))" unfolding k2 by simp
    then have "map_of (dfs d) i = None" by (simp add: map_of_eq_None_iff)
    then show ?thesis
      unfolding dfs_lookup doc_freq_snoc in_ids [OF ti] using t doc_freq_unseen [OF t(2)] by simp
  qed
  show ?thesis
    unfolding vocabulary_of_def unf using D1 D2 R K1 K2 T C nd by auto
qed

lemma empty_dictionary_invariant: "vocabulary_of empty_dictionary []"
  by (simp add: vocabulary_of_def empty_dictionary_def)

lemma add_documents_invariant:
  "vocabulary_of d docs \<Longrightarrow> vocabulary_of (add_documents d batch) (docs @ batch)"
proof (induction batch arbitrary: d docs)
  case Nil
  then show ?case by (simp add: add_documents_def)
next
  case (Cons doc batch)
  from add_document_invariant [OF Cons.prems, of doc]
  have "vocabulary_of (add_documents (add_document doc d) batch) ((docs @ [doc]) @ batch)"
    by (rule Cons.IH)
  then show ?case by (simp add: add_documents_def)
qed

lemma compact_index:
  fixes xs :: "nat list"
  assumes "distinct xs"
  defines "idx \<equiv> map_of (dict_of (zip (sort xs) [0..<length xs]))"
  shows "\<And>i. i \<in> set xs \<Longrightarrow> \<exists>k<length xs. idx i = Some k"
    and "\<And>i j k. idx i = Some k \<Longrightarrow> idx j = Some k \<Longrightarrow> i = j"
    and "\<And>k. k < length xs \<Longrightarrow> \<exists>i\<in>set xs. idx i = Some k"
proof -
  let ?z = "zip (sort xs) [0..<length xs]"
  have fz: "map fst ?z = sort xs" and sz: "map snd ?z = [0..<length xs]" by simp_all
  have dz: "distinct (map fst ?z)" unfolding fz using assms(1) by simp
  then have idx: "idx = map_of ?z" unfolding idx_def by (simp add: dict_of_id)
  have nth: "idx (sort xs ! k) = Some k" if "k < length xs" for k
    unfolding idx using map_of_zip_nth [of "sort xs" "[0..<length xs]" k] that assms(1) by simp
  show "\<exists>k<length xs. idx i = Some k" if "i \<in> set xs" for i
  proof -
    from that have "i \<in> set (sort xs)" by simp
    then obtain k where "k < length (sort xs)" "sort xs ! k = i" unfolding in_set_conv_nth by blast
    with nth [of k] show ?thesis by auto
  qed
  show "i = j" if "idx i = Some k" "idx j = Some k" for i j k
  proof -
    have "distinct (map snd ?z)" unfolding sz by simp
    from map_of_inj [OF this] that show ?thesis unfolding idx by blast
  qed
  show "\<exists>i\<in>set xs. idx i = Some k" if "k < length xs" for k
  proof -
    from that have "k < length (sort xs)" by simp
    then have "sort xs ! k \<in> set (sort xs)" by (rule nth_mem)
    then have "sort xs ! k \<in> set xs" by simp
    with nth [OF that] show ?thesis by blast
  qed
qed

lemma filter_tokens_rare:
  fixes T :: nat and D :: Dictionary
  assumes inv: "vocabulary_of D docs"
  defines "F \<equiv> filter_tokens D (rare_ids T D)"
  shows "distinct (map fst (token2id F))" "distinct (map snd (token2id F))"
    "distinct (map fst (dfs F))" "set (map fst (dfs F)) = set (map snd (token2id F))"
    "set (map fst (token2id F)) = {t \<in> \<Union> (set ` set docs). T \<le> doc_freq t docs}"
    "\<And>t i. (t, i) \<in> set (token2id F) \<Longrightarrow> map_of (dfs F) i = Some (doc_freq t docs)"
    "num_docs F = length docs"
proof -
  let ?keep = "\<lambda>i. i \<notin> set (rare_ids T D)"
  have tF: "token2id F = filter (\<lambda>(t, i). ?keep i) (token2id D)"
    and dF: "dfs F = filter (\<lambda>(i, f). ?keep i) (dfs D)"
    unfolding F_def filter_tokens_def by simp_all
  from inv have d1: "distinct (map fst (token2id D))" and d2: "distinct (map snd (token2id D))"
    and k1: "distinct (map fst (dfs D))"
    and k2: "set (map fst (dfs D)) = set (map snd (token2id D))"
    and toks: "set (map fst (token2id D)) = \<Union> (set ` set docs)"
    and cnt: "\<And>t i. (t, i) \<in> set (token2id D) \<Longrightarrow> map_of (dfs D) i = Some (doc_freq t docs)"
    and nd: "num_docs D = length docs"
    unfolding vocabulary_of_def by auto
  have rare: "i \<in> set (rare_ids T D) \<longleftrightarrow> (\<exists>c. map_of (dfs D) i = Some c \<and> c < T)" for i
    unfolding rare_ids_def using k1 by (force simp: map_of_eq_Some_iff [OF k1])
  have keep: "?keep i \<longleftrightarrow> T \<le> doc_freq t docs" if "(t, i) \<in> set (token2id D)" for t i
    unfolding rare cnt [OF that] by auto
  show "distinct (map fst (token2id F))" unfolding tF using d1 by (rule distinct_map_filter)
  show "distinct (map snd (token2id F))" unfolding tF using d2 by (rule distinct_map_filter)
  show "distinct (map fst (dfs F))" unfolding dF using k1 by (rule distinct_map_filter)
  show "set (map fst (dfs F)) = set (map snd (token2id F))"
  proof -
    have "set (map fst (dfs F)) = {i \<in> set (map fst (dfs D)). ?keep i}"
      unfolding dF by force
    also have "\<dots> = {i \<in> set (map snd (token2id D)). ?keep i}" unfolding k2 ..
    also have "\<dots> = set (map snd (token2id F))" unfolding tF by force
    finally show ?thesis .
  qed
  show "set (map fst (token2id F)) = {t \<in> \<Union> (set ` set docs). T \<le> doc_freq t docs}"
  proof -
    have "set (map fst (token2id F)) = {t. \<exists>i. (t, i) \<in> set (token2id D) \<and> ?keep i}"
      unfolding tF by force
    also have "\<dots> = {t. \<exists>i. (t, i) \<in> set (token2id D) \<and> T \<le> doc_freq t docs}"
      using keep by blast
    also have "\<dots> = {t \<in> set (map fst (token2id D)). T \<le> doc_freq t docs}" by force
    finally show ?thesis unfolding toks .
  qed
  show "map_of (dfs F) i = Some (doc_freq t docs)" if "(t, i) \<in> set (token2id F)" for t i
  proof -
    from that have ti: "(t, i) \<in> set (token2id D)" and kp: "?keep i" unfolding tF by auto
    from cnt [OF ti] have "(i, doc_freq t docs) \<in> set (dfs D)" by (rule map_of_SomeD)
    with kp have "(i, doc_freq t docs) \<in> set (dfs F)" unfolding dF by simp
    with \<open>distinct (map fst (dfs F))\<close> show ?thesis by simp
  qed
  show "num_docs F = length docs" unfolding F_def filter_tokens_def using nd by simp
qed

lemma compactify_ok:
  fixes F :: Dictionary
  assumes d1: "distinct (map fst (token2id F))" and d2: "distinct (map snd (token2id F))"
    and k1: "distinct (map fst (dfs F))"
    and k2: "set (map fst (dfs F)) = set (map snd (token2id F))"
  defines "idx \<equiv> map_of (dict_of (zip (sort (map snd (token2id F))) [0..<length (token2id F)]))"
  shows "compactify F =
           Inr (F\<lparr>token2id := map (\<lambda>(t, i). (t, the (idx i))) (token2id F),
                  dfs := map (\<lambda>(i, f). (the (idx i), f)) (dfs F)\<rparr>)"
    and "inj_on (\<lambda>i. the (idx i)) (set (map snd (token2id F)))"
    and "(\<lambda>i. the (idx i)) ` set (map snd (token2id F)) = {0..<length (token2id F)}"
proof -
  let ?ids = "map snd (token2id F)"
  have idx: "idx = map_of (dict_of (zip (sort ?ids) [0..<length ?ids]))" unfolding idx_def by simp
  note ci = compact_index [OF d2, folded idx]
  have "list_all (\<lambda>(tokenid, freq). idx tokenid \<noteq> None) (dfs F)"
  proof -
    have "idx i \<noteq> None" if "(i, f) \<in> set (dfs F)" for i f
    proof -
      from that have "i \<in> set (map fst (dfs F))" by force
      then have "i \<in> set ?ids" unfolding k2 .
      from ci(1) [OF this] show ?thesis by auto
    qed
    then show ?thesis unfolding list_all_iff by auto
  qed
  then show "compactify F =
           Inr (F\<lparr>token2id := map (\<lambda>(t, i). (t, the (idx i))) (token2id F),
                  dfs := map (\<lambda>(i, f). (the (idx i), f)) (dfs F)\<rparr>)"
    unfolding compactify_def Let_def idx_def by simp
  show "inj_on (\<lambda>i. the (idx i)) (set ?ids)"
  proof (rule inj_onI)
    fix i j assume i: "i \<in> set ?ids" and j: "j \<in> set ?ids" and e: "the (idx i) = the (idx j)"
    from ci(1) [OF i] ci(1) [OF j] obtain k l where "idx i = Some k" "idx j = Some l" by blast
    with e ci(2) [of i k j] show "i = j" by simp
  qed
  show "(\<lambda>i. the (idx i)) ` set ?ids = {0..<length (token2id F)}"
  proof (intro equalityI subsetI)
    fix k assume "k \<in> (\<lambda>i. the (idx i)) ` set ?ids"
    then obtain i where i: "i \<in> set ?ids" "k = the (idx i)" by blast
    from ci(1) [OF i(1)] i(2) show "k \<in> {0..<length (token2id F)}" by auto
  next
    fix k assume "k \<in> {0..<length (token2id F)}"
    then have "k < length ?ids" by simp
    from ci(3) [OF this] obtain i where "i \<in> set ?ids" "idx i = Some k" by blast
    then show "k \<in> (\<lambda>i. the (idx i)) ` set ?ids" by force
  qed
qed

subsection \<open>Dictionary Builder\<close>

lemma articles_loop_step:
  "articles_loop lc n C i (article # rest) articles_str dictionary w =
     (if n \<le> Suc (length articles_str)
      then (if C < i
            then ([], add_documents dictionary (articles_str @ [split_on SPACE (lower lc article)]),
                  say (Reached_max_articles C) (say (Updating_at_article i C) w))
            else articles_loop lc n C (Suc i) rest []
                   (add_documents dictionary (articles_str @ [split_on SPACE (lower lc article)]))
                   (say (Updating_at_article i C) w))
      else (if C < i
            then (articles_str @ [split_on SPACE (lower lc article)], dictionary,
                  say (Reached_max_articles C) w)
            else articles_loop lc n C (Suc i) rest
                   (articles_str @ [split_on SPACE (lower lc article)]) dictionary w))"
  by (simp add: Let_def)

declare articles_loop.simps(2) [simp del]

lemma say_fields [simp]:
  "articles (say x w) = articles w" "windows (say x w) = windows w"
  "model_file (say x w) = model_file w" "dictionary_file (say x w) = dictionary_file w"
  "articles (emit e w) = articles w" "windows (emit e w) = windows w"
  "model_file (emit e w) = model_file w" "dictionary_file (emit e w) = dictionary_file w"
  by (simp_all add: say_def emit_def)

lemma add_documents_append:
  "add_documents (add_documents d xs) ys = add_documents d (xs @ ys)"
  by (simp add: add_documents_def)

lemma add_documents_Nil: "add_documents d [] = d"
  by (simp add: add_documents_def)

lemma articles_loop_flushed:
  assumes "i \<le> Suc C"
  shows "add_documents (fst (snd (articles_loop lc n C i arts b d w)))
                       (fst (articles_loop lc n C i arts b d w))
         = add_documents d (b @ map (\<lambda>a. split_on SPACE (lower lc a)) (take (Suc (Suc C) - i) arts))"
  using assms
proof (induction arts arbitrary: i b d w)
  case Nil
  then show ?case by simp
next
  case (Cons a rest)
  let ?b = "b @ [split_on SPACE (lower lc a)]"
  have tk: "take (Suc (Suc C) - i) (a # rest) = a # take (Suc C - i) rest"
    using Cons.prems by (simp add: Suc_diff_le)
  show ?case
  proof (cases "C < i")
    case True
    with Cons.prems have "i = Suc C" by simp
    then have "take (Suc (Suc C) - i) (a # rest) = [a]" by simp
    then show ?thesis
      using True by (simp add: articles_loop_step add_documents_Nil)
  next
    case False
    then have i: "Suc i \<le> Suc C" by simp
    show ?thesis
    proof (cases "n \<le> Suc (length b)")
      case True
      from Cons.IH [OF i, of "[]" "add_documents d ?b" "say (Updating_at_article i C) w"]
      show ?thesis
        using True False unfolding tk
        by (simp add: articles_loop_step add_documents_append)
    next
      case n: False
      from Cons.IH [OF i, of ?b d w]
      show ?thesis
        using n False unfolding tk by (simp add: articles_loop_step)
    qed
  qed
qed

lemma articles_loop_world:
  "articles (snd (snd (articles_loop lc n C i arts b d w))) = articles w
   \<and> windows (snd (snd (articles_loop lc n C i arts b d w))) = windows w
   \<and> model_file (snd (snd (articles_loop lc n C i arts b d w))) = model_file w"
proof (induction arts arbitrary: i b d w)
  case Nil
  then show ?case by simp
next
  case (Cons a rest)
  show ?case
    using Cons.IH [of "Suc i" "[]" "add_documents d (b @ [split_on SPACE (lower lc a)])" "say (Updating_at_article i C) w"]
      Cons.IH [of "Suc i" "b @ [split_on SPACE (lower lc a)]" d w]
    by (simp add: articles_loop_step)
qed

lemma generate_dictionary_with_result:
  "case compactify (filter_tokens (built_vocabulary lc C (articles w))
                      (rare_ids T (built_vocabulary lc C (articles w)))) of
     Inl e \<Rightarrow> snd (generate_dictionary_with lc n C T w) = Inl e
   | Inr d \<Rightarrow> snd (generate_dictionary_with lc n C T w) = Inr ()
              \<and> dictionary_file (fst (generate_dictionary_with lc n C T w)) = Some d
              \<and> model_file (fst (generate_dictionary_with lc n C T w)) = model_file w
              \<and> windows (fst (generate_dictionary_with lc n C T w)) = windows w"
proof -
  define w1 where "w1 = emit (Load ARTICLES_FILEPATH) (say (Text ''------------------'')
     (say (Text ''Generating LDA Dictionary'') (say (Text ''------------------'') w)))"
  have a: "articles w1 = articles w" "model_file w1 = model_file w" "windows w1 = windows w"
    by (simp_all add: w1_def)
  define r where "r = articles_loop lc n C 0 (articles w1) [] empty_dictionary w1"
  define D where "D = (if length (fst r) > 0 then add_documents (fst (snd r)) (fst r)
                       else fst (snd r))"
  define w2 where "w2 = (if length (fst r) > 0
                         then say (Text ''Updating with remaining articles...'') (snd (snd r))
                         else snd (snd r))"
  define w3 where "w3 = say (Text ''Filtering rare words...'')
                          (say (Loaded_unique_words (length (token2id D))) w2)"
  have unf: "generate_dictionary_with lc n C T w =
    (case compactify (filter_tokens D (rare_ids T D)) of
       Inl e \<Rightarrow> (w3, Inl e)
     | Inr dictionary \<Rightarrow>
         (emit (Save LDA_DICTIONARY_FILEPATH)
            ((say (Text ''Saving dictionary...'')
                (say (Filtered_unique_words (length (token2id dictionary))) w3))
               \<lparr>dictionary_file := Some dictionary\<rparr>), Inr ()))"
    unfolding generate_dictionary_with_def Let_def case_prod_unfold w3_def w2_def D_def r_def w1_def
    by (rule refl)
  have fl: "add_documents (fst (snd r)) (fst r) = built_vocabulary lc C (articles w)"
    unfolding r_def built_vocabulary_def tokenized_articles_def a
    using articles_loop_flushed [where i = 0 and C = C and n = n and arts = "articles w"
        and b = "[]" and d = empty_dictionary and w = w1 and lc = lc]
    by simp
  have D: "D = built_vocabulary lc C (articles w)"
    unfolding D_def using fl by (cases "fst r") (simp_all add: add_documents_Nil)
  have wr: "model_file (snd (snd r)) = model_file w" "windows (snd (snd r)) = windows w"
    unfolding r_def
    using articles_loop_world [where n = n and C = C and i = 0 and arts = "articles w1"
        and b = "[]" and d = empty_dictionary and w = w1 and lc = lc] a by simp_all
  have w3: "model_file w3 = model_file w" "windows w3 = windows w"
    unfolding w3_def w2_def using wr by simp_all
  show ?thesis
  proof (cases "compactify (filter_tokens D (rare_ids T D))")
    case (Inl e)
    then show ?thesis unfolding unf D by simp
  next
    case (Inr d)
    then show ?thesis unfolding unf D using w3 by simp
  qed
qed

lemma filter_compactify:
  assumes inv: "vocabulary_of D docs"
  shows "\<exists>d. compactify (filter_tokens D (rare_ids T D)) = Inr d \<and> persisted_vocabulary T docs d"
proof -
  define F where "F = filter_tokens D (rare_ids T D)"
  note f = filter_tokens_rare [OF inv, where T = T, folded F_def]
  define idx where
    "idx = map_of (dict_of (zip (sort (map snd (token2id F))) [0..<length (token2id F)]))"
  define re where "re = (\<lambda>i. the (idx i))"
  define d where "d = F\<lparr>token2id := map (\<lambda>(t, i). (t, the (idx i))) (token2id F),
                         dfs := map (\<lambda>(i, f). (the (idx i), f)) (dfs F)\<rparr>"
  note c = compactify_ok [OF f(1) f(2) f(3) f(4), folded idx_def, folded d_def, folded re_def]
  have d_def: "d = F\<lparr>token2id := map (\<lambda>(t, i). (t, re i)) (token2id F),
                         dfs := map (\<lambda>(i, f). (re i, f)) (dfs F)\<rparr>"
    unfolding d_def re_def ..
  have fst_t: "map fst (token2id d) = map fst (token2id F)"
    unfolding d_def by (simp add: case_prod_unfold)
  have snd_t: "map snd (token2id d) = map re (map snd (token2id F))"
    unfolding d_def by (simp add: case_prod_unfold)
  have fst_k: "map fst (dfs d) = map re (map fst (dfs F))"
    unfolding d_def by (simp add: case_prod_unfold)
  have len: "length (token2id d) = length (token2id F)" unfolding d_def by simp
  have P1: "distinct (map fst (token2id d))" unfolding fst_t by (rule f(1))
  have P2: "distinct (map snd (token2id d))"
    unfolding snd_t using f(2) c(2) distinct_map [of re "map snd (token2id F)"] by blast
  have P3: "set (map snd (token2id d)) = {0..<length (token2id d)}"
    unfolding snd_t len using c(3) by (simp add: image_image)
  have P4: "set (map fst (token2id d)) = {t \<in> \<Union> (set ` set docs). T \<le> doc_freq t docs}"
    unfolding fst_t by (rule f(5))
  have P6: "distinct (map fst (dfs d))"
    unfolding fst_k using f(3) c(2) [folded f(4)] distinct_map [of re "map fst (dfs F)"] by blast
  have P7: "set (map fst (dfs d)) = set (map snd (token2id d))"
  proof -
    have "set (map re (map fst (dfs F))) = re ` set (map fst (dfs F))" by (rule set_map)
    also have "\<dots> = re ` set (map snd (token2id F))" unfolding f(4) ..
    also have "\<dots> = set (map re (map snd (token2id F)))" by (rule set_map [symmetric])
    finally show ?thesis unfolding fst_k snd_t .
  qed
  have P5: "map_of (dfs d) j = Some (doc_freq t docs)" if "(t, j) \<in> set (token2id d)" for t j
  proof -
    from that obtain i where i: "(t, i) \<in> set (token2id F)" "j = re i" unfolding d_def by auto
    from f(6) [OF i(1)] have "(i, doc_freq t docs) \<in> set (dfs F)" by (rule map_of_SomeD)
    then have "(re i, doc_freq t docs) \<in> set (dfs d)" unfolding d_def by force
    with P6 show ?thesis unfolding i(2) by simp
  qed
  have P8: "num_docs d = length docs" unfolding d_def using f(7) by simp
  have "persisted_vocabulary T docs d"
    unfolding persisted_vocabulary_def using P1 P2 P3 P4 P5 P6 P7 P8 by auto
  with c(1) show ?thesis unfolding F_def by blast
qed

lemma built_vocabulary_invariant:
  "vocabulary_of (built_vocabulary lc C arts) (tokenized_articles lc C arts)"
  unfolding built_vocabulary_def
  using add_documents_invariant [OF empty_dictionary_invariant] by simp

lemma generate_dictionary_with_persisted:
  "\<exists>d. snd (generate_dictionary_with lc n C T w) = Inr ()
       \<and> dictionary_file (fst (generate_dictionary_with lc n C T w)) = Some d
       \<and> persisted_vocabulary T (tokenized_articles lc C (articles w)) d"
proof -
  from filter_compactify [OF built_vocabulary_invariant [of lc C "articles w"], where T = T]
  obtain d where d: "compactify (filter_tokens (built_vocabulary lc C (articles w))
                      (rare_ids T (built_vocabulary lc C (articles w)))) = Inr d"
    "persisted_vocabulary T (tokenized_articles lc C (articles w)) d" by blast
  from generate_dictionary_with_result [where C = C and w = w and T = T and n = n and lc = lc] d(1)
  have "snd (generate_dictionary_with lc n C T w) = Inr ()"
    "dictionary_file (fst (generate_dictionary_with lc n C T w)) = Some d" by simp_all
  with d(2) show ?thesis by blast
qed

subsection \<open>The id-to-word mapping\<close>

lemma id2word_fold:
  assumes inj: "\<forall>a b j. map_of t2i a = Some j \<longrightarrow> map_of t2i b = Some j \<longrightarrow> a = b"
  shows "map_of (fold (\<lambda>word i2w. case map_of t2i word of
                                     Some tokenid \<Rightarrow> AList.update tokenid word i2w
                                   | None \<Rightarrow> i2w) ks acc) i = Some t
         \<longleftrightarrow> (t \<in> set ks \<and> map_of t2i t = Some i)
             \<or> ((\<forall>s\<in>set ks. map_of t2i s \<noteq> Some i) \<and> map_of acc i = Some t)"
    (is "map_of (fold ?g ks acc) i = Some t \<longleftrightarrow> _")
proof (induction ks arbitrary: acc)
  case Nil
  then show ?case by simp
next
  case (Cons k ks)
  show ?case
  proof (cases "map_of t2i k")
    case None
    then have step: "fold ?g (k # ks) acc = fold ?g ks acc" by simp
    show ?thesis unfolding step Cons.IH [of acc] using None by auto
  next
    case (Some j)
    then have step: "fold ?g (k # ks) acc = fold ?g ks (AList.update j k acc)" by simp
    have upd: "map_of (AList.update j k acc) i = (if i = j then Some k else map_of acc i)"
      by (simp add: AList.update_conv')
    show ?thesis
    proof (cases "i = j")
      case True
      with Some have mk: "map_of t2i k = Some i" by simp
      have same: "s = k" if "map_of t2i s = Some i" for s using inj that mk by blast
      show ?thesis
      proof (cases "t = k")
        case tk: True
        have "k \<in> set ks \<or> (\<forall>s\<in>set ks. map_of t2i s \<noteq> Some i)"
        proof (cases "\<exists>s\<in>set ks. map_of t2i s = Some i")
          case True
          then obtain s where s: "s \<in> set ks" "map_of t2i s = Some i" by blast
          from same [OF s(2)] s(1) show ?thesis by simp
        next
          case False
          then show ?thesis by simp
        qed
        then show ?thesis
          unfolding step Cons.IH [of "AList.update j k acc"] upd using True tk mk by simp
      next
        case False
        then have "map_of t2i t \<noteq> Some i" using same [of t] by blast
        then show ?thesis
          unfolding step Cons.IH [of "AList.update j k acc"] upd using True False mk by simp
      qed
    next
      case False
      with Some have "map_of t2i k \<noteq> Some i" by simp
      then show ?thesis
        unfolding step Cons.IH [of "AList.update j k acc"] upd using False by auto
    qed
  qed
qed

lemma id2word_of_inverse:
  assumes "distinct (map snd (token2id d))"
  shows "map_of (id2word_of d) i = Some t \<longleftrightarrow> map_of (token2id d) t = Some i"
proof -
  have inj: "\<forall>a b j. map_of (token2id d) a = Some j \<longrightarrow> map_of (token2id d) b = Some j \<longrightarrow> a = b"
    using map_of_inj [OF assms] by blast
  have "map_of (id2word_of d) i = Some t
        \<longleftrightarrow> t \<in> set (map fst (token2id d)) \<and> map_of (token2id d) t = Some i"
    unfolding id2word_of_def
    using id2word_fold [OF inj, of "map fst (token2id d)" "[]" i t] by simp
  moreover have "t \<in> set (map fst (token2id d))" if "map_of (token2id d) t = Some i"
  proof -
    from that have "(t, i) \<in> set (token2id d)" by (rule map_of_SomeD)
    then show ?thesis by force
  qed
  ultimately show ?thesis by blast
qed

subsection \<open>The persisted vocabulary\<close>

lemma example_tokenized:
  "tokenized_articles latin1_lower 10 (articles example_world)
     = map (map unicode_of) [[''a'', ''b'', ''c''], [''b'', ''c'', ''d''], [''c'', ''d'', ''e'']]"
  by (simp add: tokenized_articles_def example_world_def unicode_of_def lower_def latin1_lower_def)

lemma example_built: "built_vocabulary latin1_lower 10 (articles example_world) = example_dictionary"
  unfolding built_vocabulary_def example_tokenized
  by (simp add: add_documents_def add_document_def counter_of_def increment_def bow_of_def
        dict_of_def List.map_filter_def empty_dictionary_def example_dictionary_def unicode_of_def)

lemma example_compact:
  "compactify (filter_tokens example_dictionary (rare_ids 2 example_dictionary))
     = Inr example_persisted"
  by (simp add: compactify_def filter_tokens_def rare_ids_def example_dictionary_def
        example_persisted_def dict_of_def unicode_of_def)

lemma length_tokenized_articles:
  "length (tokenized_articles lc C arts) = min (length arts) (C + 2)"
  by (simp add: tokenized_articles_def)

lemma example_world_simps:
  "articles example_world = map unicode_of [''a b c'', ''b c d'', ''c d e'']"
  "length (articles example_world) = 3"
  by (simp_all add: example_world_def)

lemma example_compact_all:
  "compactify (filter_tokens example_dictionary (rare_ids 1 example_dictionary))
     = Inr example_dictionary"
  by (simp add: compactify_def filter_tokens_def rare_ids_def example_dictionary_def
        dict_of_def unicode_of_def)

text \<open>
  C3: whatever the corpus, the Dictionary Builder succeeds, and the vocabulary it persists
  holds exactly the tokens whose document frequency over the tokenized articles is at
  least \<open>T\<close>: no token with a lower frequency remains, every token carries its corpus
  document frequency, and the ids are pairwise different and fill the range
  \<open>0, ..., length - 1\<close>. The script runs with \<open>T = IGNORE_WORDS_BELOW_COUNT\<close>.
\<close>

theorem generate_dictionary_filtered_compact:
  "\<exists>d. snd (generate_dictionary_with lc n C T w) = Inr ()
       \<and> dictionary_file (fst (generate_dictionary_with lc n C T w)) = Some d
       \<and> set (map fst (token2id d))
           = {t \<in> \<Union> (set ` set (tokenized_articles lc C (articles w))).
                T \<le> doc_freq t (tokenized_articles lc C (articles w))}
       \<and> (\<forall>(t, i) \<in> set (token2id d).
             map_of (dfs d) i = Some (doc_freq t (tokenized_articles lc C (articles w)))
             \<and> T \<le> doc_freq t (tokenized_articles lc C (articles w)))
       \<and> distinct (map snd (token2id d))
       \<and> set (map snd (token2id d)) = {0..<length (token2id d)}"
proof -
  let ?docs = "tokenized_articles lc C (articles w)"
  from generate_dictionary_with_persisted [of lc n C T w]
  obtain d where d: "snd (generate_dictionary_with lc n C T w) = Inr ()"
    "dictionary_file (fst (generate_dictionary_with lc n C T w)) = Some d"
    "persisted_vocabulary T ?docs d" by blast
  from d(3) have toks: "set (map fst (token2id d)) = {t \<in> \<Union> (set ` set ?docs). T \<le> doc_freq t ?docs}"
    and cnt: "\<forall>(t, i) \<in> set (token2id d). map_of (dfs d) i = Some (doc_freq t ?docs)"
    and ids: "distinct (map snd (token2id d))" "set (map snd (token2id d)) = {0..<length (token2id d)}"
    unfolding persisted_vocabulary_def by blast+
  have "T \<le> doc_freq t ?docs" if "(t, i) \<in> set (token2id d)" for t i
  proof -
    from that have "t \<in> set (map fst (token2id d))" by force
    then show ?thesis unfolding toks by simp
  qed
  with cnt have "\<forall>(t, i) \<in> set (token2id d).
      map_of (dfs d) i = Some (doc_freq t ?docs) \<and> T \<le> doc_freq t ?docs" by auto
  with d(1,2) toks ids show ?thesis by blast
qed

theorem generate_dictionary_filtered_compact_witness:
  "dictionary_file (fst (generate_dictionary_with latin1_lower 1000 10 2 example_world)) = Some example_persisted
   \<and> (unicode_of ''c'', 1) \<in> set (token2id example_persisted)
   \<and> map_of (dfs example_persisted) 1
        = Some (doc_freq (unicode_of ''c'') (tokenized_articles latin1_lower 10 (articles example_world)))
   \<and> 2 \<le> doc_freq (unicode_of ''c'') (tokenized_articles latin1_lower 10 (articles example_world))
   \<and> set (map snd (token2id example_persisted)) = {0..<3}"
proof -
  from generate_dictionary_with_result [where n = 1000 and C = 10 and T = 2 and w = example_world
      and lc = latin1_lower]
  have f: "dictionary_file (fst (generate_dictionary_with latin1_lower 1000 10 2 example_world))
             = Some example_persisted"
    unfolding example_built example_compact by simp
  from generate_dictionary_filtered_compact [of latin1_lower 1000 10 2 example_world] f
  have p: "\<forall>(t, i) \<in> set (token2id example_persisted).
             map_of (dfs example_persisted) i
               = Some (doc_freq t (tokenized_articles latin1_lower 10 (articles example_world)))
             \<and> 2 \<le> doc_freq t (tokenized_articles latin1_lower 10 (articles example_world))"
    "set (map snd (token2id example_persisted)) = {0..<length (token2id example_persisted)}"
    by auto
  have m: "(unicode_of ''c'', 1) \<in> set (token2id example_persisted)"
    by (simp add: example_persisted_def)
  have l: "length (token2id example_persisted) = 3" by (simp add: example_persisted_def)
  from p(1) m have "map_of (dfs example_persisted) 1
               = Some (doc_freq (unicode_of ''c'') (tokenized_articles latin1_lower 10 (articles example_world)))
             \<and> 2 \<le> doc_freq (unicode_of ''c'') (tokenized_articles latin1_lower 10 (articles example_world))"
    by blast
  with f m p(2) l show ?thesis by simp
qed

text \<open>
  C9: the Dictionary Builder flushes its final partial batch. Whatever the flush size
  \<open>n\<close>, the persisted vocabulary is the filtered and compacted vocabulary of all the
  articles the loop tokenized, as if they had been added in one batch: its document
  count is the number of those articles, and its document frequencies count every one
  of them.
\<close>

theorem generate_dictionary_flushes_remainder:
  "\<exists>d. snd (generate_dictionary_with lc n C T w) = Inr ()
       \<and> dictionary_file (fst (generate_dictionary_with lc n C T w)) = Some d
       \<and> compactify (filter_tokens (built_vocabulary lc C (articles w))
                        (rare_ids T (built_vocabulary lc C (articles w)))) = Inr d
       \<and> num_docs d = min (length (articles w)) (C + 2)
       \<and> (\<forall>(t, i) \<in> set (token2id d).
             map_of (dfs d) i = Some (doc_freq t (tokenized_articles lc C (articles w))))"
proof -
  let ?docs = "tokenized_articles lc C (articles w)"
  let ?B = "built_vocabulary lc C (articles w)"
  from filter_compactify [OF built_vocabulary_invariant [of lc C "articles w"], where T = T]
  obtain d where d: "compactify (filter_tokens ?B (rare_ids T ?B)) = Inr d"
    "persisted_vocabulary T ?docs d" by blast
  from generate_dictionary_with_result [where C = C and w = w and T = T and n = n and lc = lc] d(1)
  have r: "snd (generate_dictionary_with lc n C T w) = Inr ()"
    "dictionary_file (fst (generate_dictionary_with lc n C T w)) = Some d" by simp_all
  from d(2) have "num_docs d = length ?docs"
    and cnt: "\<forall>(t, i) \<in> set (token2id d). map_of (dfs d) i = Some (doc_freq t ?docs)"
    unfolding persisted_vocabulary_def by blast+
  then have "num_docs d = min (length (articles w)) (C + 2)"
    by (simp add: length_tokenized_articles)
  with r d(1) cnt show ?thesis by blast
qed

theorem generate_dictionary_flushes_remainder_witness:
  "dictionary_file (fst (generate_dictionary_with latin1_lower 2 10 1 example_world)) = Some example_dictionary
   \<and> num_docs example_dictionary = 3
   \<and> (unicode_of ''e'', 4) \<in> set (token2id example_dictionary)
   \<and> doc_freq (unicode_of ''e'') (tokenized_articles latin1_lower 10 (articles example_world)) = 1"
proof -
  from generate_dictionary_flushes_remainder [of latin1_lower 2 10 1 example_world]
  obtain d where d: "dictionary_file (fst (generate_dictionary_with latin1_lower 2 10 1 example_world)) = Some d"
    "compactify (filter_tokens (built_vocabulary latin1_lower 10 (articles example_world))
        (rare_ids 1 (built_vocabulary latin1_lower 10 (articles example_world)))) = Inr d"
    "num_docs d = min (length (articles example_world)) (10 + 2)"
    "\<forall>(t, i) \<in> set (token2id d).
        map_of (dfs d) i = Some (doc_freq t (tokenized_articles latin1_lower 10 (articles example_world)))"
    by blast
  from d(2) have e: "d = example_dictionary" unfolding example_built example_compact_all by simp
  have m: "(unicode_of ''e'', 4) \<in> set (token2id example_dictionary)"
    by (simp add: example_dictionary_def)
  with d(4) have "map_of (dfs example_dictionary) 4
      = Some (doc_freq (unicode_of ''e'') (tokenized_articles latin1_lower 10 (articles example_world)))"
    unfolding e by blast
  then have "doc_freq (unicode_of ''e'') (tokenized_articles latin1_lower 10 (articles example_world)) = 1"
    by (simp add: example_dictionary_def)
  with d(1,3) m show ?thesis unfolding e by (simp add: example_world_simps(2))
qed

lemma generate_dictionary_with_num_docs:
  "map_option num_docs (dictionary_file (fst (generate_dictionary_with lc n C T w)))
     = Some (min (length (articles w)) (C + 2))"
proof -
  from generate_dictionary_with_persisted [of lc n C T w]
  obtain d where "dictionary_file (fst (generate_dictionary_with lc n C T w)) = Some d"
    "persisted_vocabulary T (tokenized_articles lc C (articles w)) d" by blast
  then show ?thesis
    by (simp add: persisted_vocabulary_def length_tokenized_articles)
qed

text \<open>
  C2 asks for at most \<open>C + 1\<close> articles. The loop breaks on \<open>i > C\<close> after it has
  handled article \<open>i\<close>, so it handles the articles \<open>0, ..., C + 1\<close>: with the script's
  cap of 100000 and a corpus of 100002 articles, the vocabulary counts 100002 documents;
  with a cap of 0, it counts 2.
\<close>

theorem generate_dictionary_cap_overshoot:
  "map_option num_docs (dictionary_file (fst (generate_dictionary latin1_lower many_articles_world)))
     = Some 100002
   \<and> COUNT_EXAMPLES_FOR_DICTIONARY + 1 = 100001
   \<and> map_option num_docs (dictionary_file (fst (generate_dictionary_with latin1_lower 1000 0 1 example_world)))
     = Some 2"
proof -
  have "length (articles many_articles_world) = 100002"
    unfolding many_articles_world_def by simp
  then have "map_option num_docs (dictionary_file (fst (generate_dictionary latin1_lower many_articles_world)))
     = Some 100002"
    unfolding generate_dictionary_def generate_dictionary_with_num_docs
    by (simp add: COUNT_EXAMPLES_FOR_DICTIONARY_def)
  moreover have "map_option num_docs
      (dictionary_file (fst (generate_dictionary_with latin1_lower 1000 0 1 example_world))) = Some 2"
    unfolding generate_dictionary_with_num_docs by (simp add: example_world_simps(2))
  ultimately show ?thesis by (simp add: COUNT_EXAMPLES_FOR_DICTIONARY_def)
qed

text \<open>
  C7: the id-to-word mapping the Model Trainer hands to the model is the inverse of the
  loaded vocabulary's token-to-id mapping, for a vocabulary whose ids are pairwise
  different: id \<open>i\<close> maps to token \<open>t\<close> exactly when \<open>t\<close> maps to \<open>i\<close>. Every
  vocabulary the Dictionary Builder persists has pairwise different ids.
\<close>

theorem train_lda_id2word_inverse:
  "(dictionary_file w = Some d \<and> distinct (map snd (token2id d)) \<longrightarrow>
      (\<exists>m. snd (train_lda lc w) = Inr () \<and> model_file (fst (train_lda lc w)) = Some m
           \<and> (\<forall>t i. map_of (id2word m) i = Some t \<longleftrightarrow> map_of (token2id d) t = Some i)))
   \<and> (\<exists>d'. dictionary_file (fst (generate_dictionary_with lc n C T w0)) = Some d'
            \<and> distinct (map snd (token2id d')))"
proof (intro conjI impI)
  assume a: "dictionary_file w = Some d \<and> distinct (map snd (token2id d))"
  then have f: "dictionary_file w = Some d" and di: "distinct (map snd (token2id d))" by simp_all
  from train_lda_with_batches [OF f, where lc = lc and F = 25000
      and C = COUNT_EXAMPLES_FOR_LDA]
  obtain m where m: "snd (train_lda lc w) = Inr ()" "model_file (fst (train_lda lc w)) = Some m"
    "id2word m = id2word_of d" unfolding train_lda_def by auto
  have "\<forall>t i. map_of (id2word m) i = Some t \<longleftrightarrow> map_of (token2id d) t = Some i"
    unfolding m(3) using id2word_of_inverse [OF di] by blast
  with m(1,2) show "\<exists>m. snd (train_lda lc w) = Inr () \<and> model_file (fst (train_lda lc w)) = Some m
           \<and> (\<forall>t i. map_of (id2word m) i = Some t \<longleftrightarrow> map_of (token2id d) t = Some i)"
    by blast
next
  from generate_dictionary_with_persisted [of lc n C T w0]
  show "\<exists>d'. dictionary_file (fst (generate_dictionary_with lc n C T w0)) = Some d'
            \<and> distinct (map snd (token2id d'))"
    unfolding persisted_vocabulary_def by blast
qed

theorem train_lda_id2word_inverse_witness:
  "(case model_file (fst (train_lda latin1_lower vocabulary_world)) of
      Some m \<Rightarrow> map_of (id2word m) 2 | None \<Rightarrow> None) = Some (unicode_of ''c'')"
proof -
  have di: "distinct (map snd (token2id example_dictionary))"
    by (simp add: example_dictionary_def)
  from train_lda_id2word_inverse [where w = vocabulary_world and d = example_dictionary
      and lc = latin1_lower] di
    vocabulary_world_simps(1)
  obtain m where m: "model_file (fst (train_lda latin1_lower vocabulary_world)) = Some m"
    "\<forall>t i. map_of (id2word m) i = Some t \<longleftrightarrow> map_of (token2id example_dictionary) t = Some i"
    by blast
  have "map_of (token2id example_dictionary) (unicode_of ''c'') = Some 2"
    by (simp add: example_dictionary_def unicode_of_def)
  with m(2) have "map_of (id2word m) 2 = Some (unicode_of ''c'')" by blast
  with m(1) show ?thesis by simp
qed

lemma trained_world_simps:
  "dictionary_file trained_world = Some example_dictionary"
  "model_file trained_world = Some example_model"
  "trace trained_world = []"
  by (simp_all add: trained_world_def vocabulary_world_def example_world_def)





subsection \<open>Blank sentences\<close>

lemma not_space_letters: "65 \<le> c \<Longrightarrow> c \<le> 122 \<Longrightarrow> \<not> is_space c"
  by (simp add: is_space_def)

lemma not_space_latin: "192 \<le> c \<Longrightarrow> c \<le> 254 \<Longrightarrow> \<not> is_space c"
  by (simp add: is_space_def)

lemma latin1_lower_space:
  assumes "is_space c"
  shows "latin1_lower c = c"
proof -
  have "\<not> ((65 \<le> c \<and> c \<le> 90) \<or> (192 \<le> c \<and> c \<le> 222 \<and> c \<noteq> 215))"
    using assms not_space_letters [of c] not_space_latin [of c] by auto
  then show ?thesis unfolding latin1_lower_def by (rule if_not_P)
qed

lemma strip_all_space:
  assumes "\<forall>c\<in>set u. is_space c" "\<forall>c. is_space c \<longrightarrow> lc c = c"
  shows "strip (lower lc u) = []"
proof -
  have m: "map lc u = u" using assms by (simp add: map_idI)
  have "dropWhile is_space u = []"
    using assms(1) by (simp add: dropWhile_eq_Nil_conv)
  then have "strip u = rev (dropWhile is_space (rev []))"
    unfolding strip_def by (rule arg_cong)
  then show ?thesis by (simp add: lower_def m)
qed

lemma doc2bow_empty_token:
  "doc2bow d [[]] = (case map_of (token2id d) [] of None \<Rightarrow> [] | Some i \<Rightarrow> [(i, 1)])"
  by (simp add: doc2bow_def bow_of_def counter_of_def increment_def dict_of_def
        List.map_filter_def split: option.splits)

text \<open>
  C10: a non-empty sentence that decodes to whitespace only passes the emptiness check;
  the case table leaves whitespace as it is, so stripping and splitting yield the
  one-element token list holding the empty string; with both artifacts in place the
  Sentence Tester does not raise and queries the model with the bag-of-words vector of
  that list. The vector is empty unless the empty string is itself a vocabulary token,
  in which case it is one occurrence of that token's id.
\<close>

theorem test_lda_blank_sentence:
  assumes "s \<noteq> []" "decode s = Some u" "\<forall>c\<in>set u. is_space c"
    "\<forall>c. is_space c \<longrightarrow> lc c = c"
    "dictionary_file w = Some d" "model_file w = Some m"
  shows "split_on SPACE (strip (lower lc u)) = [[]]
    \<and> test_lda lc ws (Some s) w =
        (w\<lparr>trace := trace w
              @ (if 1 \<noteq> ws then [Print (Info_token_size 1 ws)] else [])
              @ [Load LDA_DICTIONARY_FILEPATH, Load LDA_MODEL_FILEPATH,
                 Print (Topics_of m (doc2bow d [[]]))]\<rparr>, Inr ())
    \<and> doc2bow d [[]] = (case map_of (token2id d) [] of None \<Rightarrow> [] | Some i \<Rightarrow> [(i, 1)])"
proof -
  have t: "split_on SPACE (strip (lower lc u)) = [[]]"
    unfolding strip_all_space [OF assms(3,4)] by simp
  have "test_lda lc ws (Some s) w =
        (w\<lparr>trace := trace w
              @ (if 1 \<noteq> ws then [Print (Info_token_size 1 ws)] else [])
              @ [Load LDA_DICTIONARY_FILEPATH, Load LDA_MODEL_FILEPATH,
                 Print (Topics_of m (doc2bow d [[]]))]\<rparr>, Inr ())"
    unfolding test_lda_run [OF assms(1,2)] t Let_def using assms(5,6) by simp
  with t doc2bow_empty_token show ?thesis by simp
qed

lemma decode_blank_tab: "decode [CHR '' '', CHR 0x09] = Some [32, 9]"
  by (simp add: decode_def)

theorem test_lda_blank_sentence_witness:
  "test_lda latin1_lower 11 (Some [CHR '' '', CHR 0x09]) trained_world =
     (trained_world\<lparr>trace := [Print (Info_token_size 1 11),
                               Load LDA_DICTIONARY_FILEPATH, Load LDA_MODEL_FILEPATH,
                               Print (Topics_of example_model [])]\<rparr>, Inr ())"
proof -
  have ne: "[CHR '' '', CHR 0x09] \<noteq> []" by simp
  have sp: "\<forall>c\<in>set [32, 9]. is_space c" by (simp add: is_space_def)
  have tb: "\<forall>c. is_space c \<longrightarrow> latin1_lower c = c" using latin1_lower_space by blast
  have "map_of (token2id example_dictionary) [] = None"
    by (simp add: example_dictionary_def unicode_of_def)
  with test_lda_blank_sentence
         [OF ne decode_blank_tab sp tb trained_world_simps(1,2), of 11]
  show ?thesis by (simp add: trained_world_simps(3))
qed

end
